theory Spec2Isabelle
  imports Complex_Main "HOL-Library.Word"
begin

chapter \<open>The image resizer and its benchmark harness: the program\<close>

text \<open>
  A shallow embedding of \<^verbatim>\<open>src/benchmark.js\<close> (the resource monitor, the payload
  builder, the request driver and the scenario runner) and of the quality formula of
  \<^verbatim>\<open>src/unnamed/part_000\<close> (the upload endpoint). Everything the JavaScript reads
  from its environment (the clock, the process counters, the network, the timer race)
  is an explicit argument of the function that reads it.
\<close>

section \<open>JavaScript numbers\<close>

text \<open>
  A JavaScript Number is an IEEE-754 binary64 value. Finite values are modelled by the
  real they denote, next to the two infinities and NaN. Every arithmetic operator
  computes the exact result and rounds it to the nearest binary64 value, ties to even
  (\<open>fl\<close>); a rounded magnitude of \<open>2^1024\<close> or more overflows to an infinity.
  Zero is unsigned (the harness never produces \<open>-0\<close>).
\<close>

datatype jsnum = Fin real | PInf | NInf | NaN

text \<open>Round to the nearest integer, ties to the even one.\<close>

definition rne :: "real \<Rightarrow> int" where
  "rne x = (let f = \<lfloor>x\<rfloor>; r = x - of_int f
            in if r < 1 / 2 then f
               else if 1 / 2 < r then f + 1
               else if even f then f else f + 1)"

text \<open>
  Normalising a positive magnitude \<open>y * 2^q\<close>: the significand is brought into
  \<open>[2^52, 2^53)\<close>; the quantum exponent \<open>q\<close> stays within \<open>-1074 .. 971\<close>
  (below, the value is subnormal and keeps the quantum \<open>2^-1074\<close>).
\<close>

fun scale_down :: "nat \<Rightarrow> real \<Rightarrow> int \<Rightarrow> real \<times> int" where
  "scale_down 0 y q = (y, q)"
| "scale_down (Suc n) y q =
     (if 2 ^ 53 \<le> y then scale_down n (y / 2) (q + 1) else (y, q))"

fun scale_up :: "nat \<Rightarrow> real \<Rightarrow> int \<Rightarrow> real \<times> int" where
  "scale_up 0 y q = (y, q)"
| "scale_up (Suc n) y q =
     (if y < 2 ^ 52 then scale_up n (y * 2) (q - 1) else (y, q))"

definition fl :: "real \<Rightarrow> real" where
  "fl x = (if x = 0 then 0
           else let (y, q) = (if 2 ^ 53 \<le> \<bar>x\<bar> then scale_down 971 \<bar>x\<bar> 0
                              else scale_up 1074 \<bar>x\<bar> 0)
                in sgn x * of_int (rne y) * 2 powi q)"

definition js_round :: "real \<Rightarrow> jsnum" where
  "js_round x = (let r = fl x
                 in if 2 ^ 1024 \<le> r then PInf
                    else if r \<le> - (2 ^ 1024) then NInf
                    else Fin r)"

fun js_neg :: "jsnum \<Rightarrow> jsnum" where
  "js_neg (Fin a) = Fin (- a)"
| "js_neg PInf = NInf"
| "js_neg NInf = PInf"
| "js_neg NaN = NaN"

fun js_add :: "jsnum \<Rightarrow> jsnum \<Rightarrow> jsnum" where
  "js_add NaN b = NaN"
| "js_add a NaN = NaN"
| "js_add (Fin a) (Fin b) = js_round (a + b)"
| "js_add PInf NInf = NaN"
| "js_add NInf PInf = NaN"
| "js_add PInf b = PInf"
| "js_add a PInf = PInf"
| "js_add NInf b = NInf"
| "js_add a NInf = NInf"

definition js_sub :: "jsnum \<Rightarrow> jsnum \<Rightarrow> jsnum" where
  "js_sub a b = js_add a (js_neg b)"

fun js_mul :: "jsnum \<Rightarrow> jsnum \<Rightarrow> jsnum" where
  "js_mul NaN b = NaN"
| "js_mul a NaN = NaN"
| "js_mul (Fin a) (Fin b) = js_round (a * b)"
| "js_mul (Fin a) PInf = (if a = 0 then NaN else if 0 < a then PInf else NInf)"
| "js_mul (Fin a) NInf = (if a = 0 then NaN else if 0 < a then NInf else PInf)"
| "js_mul PInf (Fin b) = (if b = 0 then NaN else if 0 < b then PInf else NInf)"
| "js_mul NInf (Fin b) = (if b = 0 then NaN else if 0 < b then NInf else PInf)"
| "js_mul PInf PInf = PInf"
| "js_mul NInf NInf = PInf"
| "js_mul PInf NInf = NInf"
| "js_mul NInf PInf = NInf"

fun js_div :: "jsnum \<Rightarrow> jsnum \<Rightarrow> jsnum" where
  "js_div NaN b = NaN"
| "js_div a NaN = NaN"
| "js_div (Fin a) (Fin b) =
     (if b = 0 then (if a = 0 then NaN else if 0 < a then PInf else NInf)
      else js_round (a / b))"
| "js_div (Fin a) PInf = Fin 0"
| "js_div (Fin a) NInf = Fin 0"
| "js_div PInf (Fin b) = (if 0 \<le> b then PInf else NInf)"
| "js_div NInf (Fin b) = (if 0 \<le> b then NInf else PInf)"
| "js_div a b = NaN"

text \<open>\<^verbatim>\<open>Math.max\<close>, \<^verbatim>\<open>Math.min\<close>, \<^verbatim>\<open>Math.floor\<close> and \<^verbatim>\<open>Math.ceil\<close>: exact, NaN is contagious.\<close>

fun js_max :: "jsnum \<Rightarrow> jsnum \<Rightarrow> jsnum" where
  "js_max NaN b = NaN"
| "js_max a NaN = NaN"
| "js_max PInf b = PInf"
| "js_max a PInf = PInf"
| "js_max NInf b = b"
| "js_max a NInf = a"
| "js_max (Fin a) (Fin b) = Fin (max a b)"

fun js_min :: "jsnum \<Rightarrow> jsnum \<Rightarrow> jsnum" where
  "js_min NaN b = NaN"
| "js_min a NaN = NaN"
| "js_min NInf b = NInf"
| "js_min a NInf = NInf"
| "js_min PInf b = b"
| "js_min a PInf = a"
| "js_min (Fin a) (Fin b) = Fin (min a b)"

fun js_floor :: "jsnum \<Rightarrow> jsnum" where
  "js_floor (Fin a) = Fin (of_int \<lfloor>a\<rfloor>)"
| "js_floor a = a"

fun js_ceil :: "jsnum \<Rightarrow> jsnum" where
  "js_ceil (Fin a) = Fin (of_int \<lceil>a\<rceil>)"
| "js_ceil a = a"

text \<open>\<^verbatim>\<open>Math.abs\<close>.\<close>

fun js_abs :: "jsnum \<Rightarrow> jsnum" where
  "js_abs (Fin a) = Fin \<bar>a\<bar>"
| "js_abs NInf = PInf"
| "js_abs a = a"

text \<open>A Number that may be \<^verbatim>\<open>undefined\<close>: in arithmetic, \<^verbatim>\<open>undefined\<close> is NaN.\<close>

fun js_number :: "jsnum option \<Rightarrow> jsnum" where
  "js_number None = NaN"
| "js_number (Some a) = a"

text \<open>The relational operators: every comparison with NaN is false.\<close>

fun js_lt :: "jsnum \<Rightarrow> jsnum \<Rightarrow> bool" where
  "js_lt NaN b = False"
| "js_lt a NaN = False"
| "js_lt (Fin a) (Fin b) = (a < b)"
| "js_lt a PInf = (a \<noteq> PInf)"
| "js_lt NInf b = (b \<noteq> NInf)"
| "js_lt a b = False"

definition js_gt :: "jsnum \<Rightarrow> jsnum \<Rightarrow> bool" where
  "js_gt a b = js_lt b a"

definition js_ge :: "jsnum \<Rightarrow> jsnum \<Rightarrow> bool" where
  "js_ge a b = (a \<noteq> NaN \<and> b \<noteq> NaN \<and> \<not> js_lt a b)"

text \<open>Truthiness of a number: \<open>0\<close> and NaN are falsy.\<close>

definition js_truthy :: "jsnum \<Rightarrow> bool" where
  "js_truthy a = (a \<noteq> NaN \<and> a \<noteq> Fin 0)"

section \<open>The upload endpoint: target quality of \<^verbatim>\<open>processImage\<close>\<close>

text \<open>
  \<^verbatim>\<open>const originalSizeKB = fileBuffer.length / 1024;\<close> The argument is the length of
  the uploaded buffer, a natural number.
\<close>

definition originalSizeKB :: "nat \<Rightarrow> jsnum" where
  "originalSizeKB len = js_div (Fin (real len)) (Fin 1024)"

text \<open>
  \<^verbatim>\<open>Math.max(10, Math.min(30, Math.floor(50 / originalSizeKB * 100)))\<close>, the quality
  of the \<^verbatim>\<open>'low'\<close> tier.
\<close>

definition lowTargetQuality :: "nat \<Rightarrow> jsnum" where
  "lowTargetQuality len =
     js_max (Fin 10) (js_min (Fin 30)
       (js_floor (js_mul (js_div (Fin 50) (originalSizeKB len)) (Fin 100))))"

text \<open>
  \<^verbatim>\<open>Math.min(10, Math.max(30, Math.floor(60 / originalSizeKB * 100)))\<close>, the quality
  of the \<^verbatim>\<open>'medium'\<close> tier.
\<close>

definition mediumTargetQuality :: "nat \<Rightarrow> jsnum" where
  "mediumTargetQuality len =
     js_min (Fin 10) (js_max (Fin 30)
       (js_floor (js_mul (js_div (Fin 60) (originalSizeKB len)) (Fin 100))))"

text \<open>
  These are the two expressions as \<^verbatim>\<open>processImage\<close> writes them, for any buffer length.
  (\<^verbatim>\<open>processImage\<close> opens the buffer with \<^verbatim>\<open>sharp(fileBuffer)\<close> first, and the codec
  refuses an empty buffer there, so the endpoint evaluates them for positive lengths.)
\<close>

section \<open>Configuration\<close>

record safety_limits =
  maxConcurrentRequests :: int
  maxTotalRequestsPerRun :: int
  maxMemoryThresholdPercent :: nat
  maxMemoryThresholdMB :: nat
  maxTimePerScenarioSec :: nat
  minDelayBetweenScenariosSec :: nat

definition SAFETY_LIMITS :: safety_limits where
  "SAFETY_LIMITS = \<lparr>maxConcurrentRequests = 50, maxTotalRequestsPerRun = 100,
     maxMemoryThresholdPercent = 80, maxMemoryThresholdMB = 4096,
     maxTimePerScenarioSec = 300, minDelayBetweenScenariosSec = 5\<rparr>"

definition TARGET_SIZE_MB :: nat where
  "TARGET_SIZE_MB = 20"

section \<open>The resource monitor\<close>

text \<open>
  \<^verbatim>\<open>process.cpuUsage()\<close> reports cumulative microseconds, \<^verbatim>\<open>process.memoryUsage()\<close>
  byte counts. A sample holds the same four memory fields in megabytes, so the record of
  the fields is shared and its content type is a parameter.
\<close>

record cpu_usage =
  user :: int
  system :: int

record 'a mem_usage =
  rss :: 'a
  heapTotal :: 'a
  heapUsed :: 'a
  external :: 'a

record metrics =
  cpu :: jsnum
  memory :: "jsnum mem_usage"

record sample_entry = metrics +
  timestamp :: jsnum

record monitor =
  cpuUsage :: cpu_usage
  memUsage :: "nat mem_usage"
  startTime :: jsnum
  samples :: "sample_entry list"
  interval :: bool
  sampleRate :: nat

text \<open>
  What one call reads from the process: the constructor and \<^verbatim>\<open>start()\<close> read the CPU
  counters, the memory usage and the clock; \<^verbatim>\<open>sample()\<close> also reads the number of logical
  cores and, on its last line, the CPU counters once more.
\<close>

record proc_reads =
  cpu_now :: cpu_usage
  mem_now :: "nat mem_usage"
  time_now :: jsnum

record sample_reads = proc_reads +
  ncpus :: nat
  cpu_after :: cpu_usage

text \<open>\<^verbatim>\<open>process.cpuUsage(previousValue)\<close>: the difference to an earlier reading.\<close>

definition cpuUsage_since :: "cpu_usage \<Rightarrow> cpu_usage \<Rightarrow> cpu_usage" where
  "cpuUsage_since current previous =
     \<lparr>user = user current - user previous, system = system current - system previous\<rparr>"

definition new_ResourceMonitor :: "proc_reads \<Rightarrow> monitor" where
  "new_ResourceMonitor r =
     \<lparr>cpuUsage = cpu_now r, memUsage = mem_now r, startTime = time_now r,
      samples = [], interval = False, sampleRate = 1000\<rparr>"

definition start :: "monitor \<Rightarrow> proc_reads \<Rightarrow> monitor" where
  "start m r =
     m\<lparr>cpuUsage := cpu_now r, memUsage := mem_now r, startTime := time_now r,
       samples := [], interval := True\<rparr>"

definition toMB :: "nat \<Rightarrow> jsnum" where
  "toMB bytes = js_div (Fin (real bytes)) (js_mul (Fin 1024) (Fin 1024))"

definition sample :: "monitor \<Rightarrow> sample_reads \<Rightarrow> monitor" where
  "sample m r =
     (let newCpuUsage = cpuUsage_since (cpu_now r) (cpuUsage m);
          newMemUsage = mem_now r;
          elapsedMs = js_sub (time_now r) (startTime m);
          cpuUsagePercent =
            js_div
              (js_mul
                 (js_div
                    (js_add (Fin (of_int (user newCpuUsage))) (Fin (of_int (system newCpuUsage))))
                    (js_mul elapsedMs (Fin 1000)))
                 (Fin 100))
              (Fin (real (ncpus r)))
      in m\<lparr>samples := samples m @
              [\<lparr>cpu = cpuUsagePercent,
                memory = \<lparr>rss = toMB (rss newMemUsage),
                          heapTotal = toMB (heapTotal newMemUsage),
                          heapUsed = toMB (heapUsed newMemUsage),
                          external = toMB (external newMemUsage)\<rparr>,
                timestamp = elapsedMs\<rparr>],
           cpuUsage := cpu_after r\<rparr>)"

text \<open>
  \<^verbatim>\<open>getResults()\<close> returns one of two shapes: the bare zero metrics when there is no
  sample, and otherwise the averages, the peaks and the samples.
\<close>

datatype resource_usage =
    NoSamples metrics
  | Summary (average: metrics) (peak: metrics) (summary_samples: "sample_entry list")

definition zero_metrics :: metrics where
  "zero_metrics =
     \<lparr>cpu = Fin 0,
      memory = \<lparr>rss = Fin 0, heapTotal = Fin 0, heapUsed = Fin 0, external = Fin 0\<rparr>\<rparr>"

definition add_sample :: "metrics \<Rightarrow> sample_entry \<Rightarrow> metrics" where
  "add_sample acc s =
     \<lparr>cpu = js_add (cpu acc) (cpu s),
      memory = \<lparr>rss = js_add (rss (memory acc)) (rss (memory s)),
                heapTotal = js_add (heapTotal (memory acc)) (heapTotal (memory s)),
                heapUsed = js_add (heapUsed (memory acc)) (heapUsed (memory s)),
                external = js_add (external (memory acc)) (external (memory s))\<rparr>\<rparr>"

definition max_sample :: "metrics \<Rightarrow> sample_entry \<Rightarrow> metrics" where
  "max_sample acc s =
     \<lparr>cpu = js_max (cpu acc) (cpu s),
      memory = \<lparr>rss = js_max (rss (memory acc)) (rss (memory s)),
                heapTotal = js_max (heapTotal (memory acc)) (heapTotal (memory s)),
                heapUsed = js_max (heapUsed (memory acc)) (heapUsed (memory s)),
                external = js_max (external (memory acc)) (external (memory s))\<rparr>\<rparr>"

definition getResults :: "monitor \<Rightarrow> resource_usage" where
  "getResults m =
     (if length (samples m) = 0 then NoSamples zero_metrics
      else
        let sum = foldl add_sample zero_metrics (samples m);
            count = Fin (real (length (samples m)));
            peak = foldl max_sample zero_metrics (samples m)
        in Summary
             \<lparr>cpu = js_div (cpu sum) count,
              memory = \<lparr>rss = js_div (rss (memory sum)) count,
                        heapTotal = js_div (heapTotal (memory sum)) count,
                        heapUsed = js_div (heapUsed (memory sum)) count,
                        external = js_div (external (memory sum)) count\<rparr>\<rparr>
             peak
             (samples m))"

text \<open>
  \<^verbatim>\<open>stop()\<close> clears the timer, takes one last sample and returns the results; the
  monitor it leaves behind is returned with them.
\<close>

definition stop :: "monitor \<Rightarrow> sample_reads \<Rightarrow> resource_usage \<times> monitor" where
  "stop m r =
     (let m1 = (if interval m then m\<lparr>interval := False\<rparr> else m);
          m2 = sample m1 r
      in (getResults m2, m2))"

text \<open>
  The CPU percentage of the specification's words: the CPU time used since the previous
  reading, over the time elapsed since that same reading (both in microseconds), over
  the number of cores, as a percentage.
\<close>

definition spec_cpu_percent ::
  "cpu_usage \<Rightarrow> jsnum \<Rightarrow> cpu_usage \<Rightarrow> jsnum \<Rightarrow> nat \<Rightarrow> jsnum" where
  "spec_cpu_percent cpu_prev time_prev cpu_cur time_cur cores =
     (let delta = cpuUsage_since cpu_cur cpu_prev;
          elapsed_time = js_mul (js_sub time_cur time_prev) (Fin 1000)
      in js_mul
           (js_div
              (js_div (js_add (Fin (of_int (user delta))) (Fin (of_int (system delta))))
                 elapsed_time)
              (Fin (real cores)))
           (Fin 100))"

text \<open>
  One monitoring window, as the harness runs it: \<^verbatim>\<open>start()\<close>, the samples of the
  timer, \<^verbatim>\<open>stop()\<close>. The result is the monitor that \<^verbatim>\<open>stop()\<close> leaves, whose
  \<^verbatim>\<open>getResults()\<close> is the summary that \<^verbatim>\<open>stop()\<close> returns.
\<close>

definition monitored ::
  "monitor \<Rightarrow> proc_reads \<Rightarrow> sample_reads list \<Rightarrow> sample_reads \<Rightarrow> monitor" where
  "monitored m r0 ticks r = snd (stop (foldl sample (start m r0) ticks) r)"

text \<open>
  The four memory fields and the five numbers of a metric set, by name, to state a
  property of every one of them; \<open>finite_num\<close> tells the finite Numbers from the
  infinities and NaN and \<open>the_real\<close> reads the real a finite Number denotes.
\<close>

datatype memory_field = Rss | HeapTotal | HeapUsed | External

fun field_of :: "memory_field \<Rightarrow> 'a mem_usage \<Rightarrow> 'a" where
  "field_of Rss x = rss x"
| "field_of HeapTotal x = heapTotal x"
| "field_of HeapUsed x = heapUsed x"
| "field_of External x = external x"

datatype metric_field = Cpu | Memory memory_field

fun metric :: "metric_field \<Rightarrow> 'a metrics_scheme \<Rightarrow> jsnum" where
  "metric Cpu x = cpu x"
| "metric (Memory g) x = field_of g (memory x)"

fun finite_num :: "jsnum \<Rightarrow> bool" where
  "finite_num (Fin a) = True"
| "finite_num a = False"

fun the_real :: "jsnum \<Rightarrow> real" where
  "the_real (Fin a) = a"
| "the_real a = 0"

subsection \<open>Example readings\<close>

text \<open>
  A process that has used no CPU time and no memory at time \<open>t\<close> (milliseconds), and a
  reading for \<^verbatim>\<open>sample()\<close> with cumulative CPU counters \<open>u\<close> and \<open>s\<close> (microseconds).
\<close>

definition idle_reads :: "real \<Rightarrow> proc_reads" where
  "idle_reads t =
     \<lparr>cpu_now = \<lparr>user = 0, system = 0\<rparr>,
      mem_now = \<lparr>rss = 0, heapTotal = 0, heapUsed = 0, external = 0\<rparr>,
      time_now = Fin t\<rparr>"

definition busy_reads :: "int \<Rightarrow> int \<Rightarrow> real \<Rightarrow> nat \<Rightarrow> sample_reads" where
  "busy_reads u s t cores =
     \<lparr>cpu_now = \<lparr>user = u, system = s\<rparr>,
      mem_now = \<lparr>rss = 0, heapTotal = 0, heapUsed = 0, external = 0\<rparr>,
      time_now = Fin t, ncpus = cores, cpu_after = \<lparr>user = u, system = s\<rparr>\<rparr>"

text \<open>
  The binary64 values of the literals \<^verbatim>\<open>0.001\<close> and \<^verbatim>\<open>0.1\<close>, which are
  \<open>1152921504606847 / 2^60\<close> and \<open>3602879701896397 / 2^55\<close>.
\<close>

definition thousandth :: real where
  "thousandth = 1152921504606847 / 1152921504606846976"

definition tenth :: real where
  "tenth = 3602879701896397 / 36028797018963968"

text \<open>
  A monitor on one core that is started at 0 ms, samples at 1000 ms and 2000 ms and is
  stopped at 3000 ms, while the process uses 1 ms, 2 ms and 3 ms of CPU time in the
  three seconds.
\<close>

definition tenth_monitor :: monitor where
  "tenth_monitor =
     monitored (new_ResourceMonitor (idle_reads 0)) (idle_reads 0)
       [busy_reads 1000 0 1000 1, busy_reads 3000 0 2000 1] (busy_reads 6000 0 3000 1)"

text \<open>
  A reading for \<^verbatim>\<open>sample()\<close> at time \<open>t\<close> of an idle process whose resident set holds
  \<open>bytes\<close> bytes and whose heap holds half of them.
\<close>

definition resident_reads :: "real \<Rightarrow> nat \<Rightarrow> sample_reads" where
  "resident_reads t bytes =
     \<lparr>cpu_now = \<lparr>user = 0, system = 0\<rparr>,
      mem_now = \<lparr>rss = bytes, heapTotal = bytes div 2, heapUsed = bytes div 2, external = 0\<rparr>,
      time_now = Fin t, ncpus = 4, cpu_after = \<lparr>user = 0, system = 0\<rparr>\<rparr>"

section \<open>Console output\<close>

text \<open>
  Every \<^verbatim>\<open>console.log\<close>, \<^verbatim>\<open>console.warn\<close> and \<^verbatim>\<open>console.error\<close> of the harness is
  an event that carries the values the message prints. The seven lines of
  \<^verbatim>\<open>printResults\<close> are one event, \<open>ResourceUsage\<close>; \<open>ResourceUsageHeading\<close> is the first
  of them alone.
\<close>

datatype label = ConcurrentRequests int | SingleRequest nat

datatype event =
    SizeWarning nat jsnum
  | ErrorCreatingBuffer string
  | SafetyLimitApplied int int
  | RunningRequests int nat
  | ResourceUsageHeading label
  | ResourceUsage label metrics metrics
  | ResultsFor int
  | TotalTime jsnum
  | SuccessRate nat int jsnum
  | AverageRequestDuration jsnum
  | AverageProcessingTime jsnum
  | CompressionResults jsnum jsnum
  | QualitySize string jsnum jsnum
  | SafetyMechanismTriggered string
  | SkippingScenario string
  | ScenarioBanner string
  | RequestCompleted jsnum
  | ProcessingTime jsnum
  | RequestFailed jsnum "string option"
  | CoolingDown nat
  | OptimizationSuggestions
  | BenchmarkFailed string

text \<open>Kinds of messages: the clamping notice, and the reports derived from successful outcomes.\<close>

fun is_clamp_notice :: "event \<Rightarrow> bool" where
  "is_clamp_notice (SafetyLimitApplied a b) = True"
| "is_clamp_notice e = False"

fun is_processing_average :: "event \<Rightarrow> bool" where
  "is_processing_average (AverageProcessingTime a) = True"
| "is_processing_average e = False"

fun is_derived_report :: "event \<Rightarrow> bool" where
  "is_derived_report (AverageRequestDuration a) = True"
| "is_derived_report (AverageProcessingTime a) = True"
| "is_derived_report (CompressionResults a b) = True"
| "is_derived_report (QualitySize q a b) = True"
| "is_derived_report e = False"

section \<open>Thrown errors\<close>

text \<open>
  A call that either returns a value or throws, and a promise that is either fulfilled
  with a value or rejected: \<open>Inr\<close> the value, \<open>Inl\<close> the message of the error.
\<close>

type_synonym 'a or_throws = "string + 'a"

text \<open>
  The messages of the TypeErrors that Node.js raises when a property of \<^verbatim>\<open>null\<close> or
  \<^verbatim>\<open>undefined\<close> is read, for the four reads of the harness that can meet one:
  \<^verbatim>\<open>response.data.timings\<close>, \<^verbatim>\<open>results.average.cpu\<close>,
  \<^verbatim>\<open>singleResult.timings.totalProcessingTime\<close> and
  \<^verbatim>\<open>singleResult.timings.totalProcessingTime.toFixed\<close>.
\<close>

definition null_body_message :: string where
  "null_body_message = ''Cannot read properties of null (reading 'timings')''"

definition no_average_message :: string where
  "no_average_message = ''Cannot read properties of undefined (reading 'cpu')''"

definition no_timings_message :: string where
  "no_timings_message = ''Cannot read properties of undefined (reading 'totalProcessingTime')''"

definition no_processing_time_message :: string where
  "no_processing_time_message = ''Cannot read properties of undefined (reading 'toFixed')''"

section \<open>The report of the resource monitor\<close>

text \<open>
  \<^verbatim>\<open>printResults(label)\<close> of the monitor prints the heading and then reads
  \<^verbatim>\<open>results.average.cpu\<close>, \<^verbatim>\<open>results.peak.cpu\<close> and so on. The bare zero metrics
  that \<^verbatim>\<open>getResults()\<close> returns for a monitor without samples have no \<^verbatim>\<open>average\<close>:
  there the read throws a TypeError, after the heading. The result is what was printed
  and the summary returned or the error thrown.
\<close>

definition printResults :: "monitor \<Rightarrow> label \<Rightarrow> event list \<times> resource_usage or_throws" where
  "printResults m l =
     (let results = getResults m
      in case results of
           NoSamples z \<Rightarrow> ([ResourceUsageHeading l], Inl no_average_message)
         | Summary a p ss \<Rightarrow> ([ResourceUsage l a p], Inr results))"

section \<open>The test payload\<close>

type_synonym buffer = "8 word list"

text \<open>
  A call either returns, throws, or ends the process (\<^verbatim>\<open>process.exit\<close>); a call that
  never returns has no completion at all (\<open>None\<close>).
\<close>

datatype 'a completion = Returned 'a | Thrown string | Exited nat

text \<open>The sample image on disk: absent, unreadable, or its bytes.\<close>

datatype sample_file = Missing | Unreadable string | Contents buffer

text \<open>
  \<^verbatim>\<open>for (let i = 0; i < requiredCopies; i++) buffer = Buffer.concat([buffer, sampleImage]);\<close>
  The bound is a Number and may be Infinity, so the loop need not end.
\<close>

partial_function (option) appendCopies ::
  "nat \<Rightarrow> jsnum \<Rightarrow> buffer \<Rightarrow> buffer \<Rightarrow> buffer option" where
  "appendCopies i requiredCopies buffer sampleImage =
     (if js_lt (Fin (real i)) requiredCopies
      then appendCopies (i + 1) requiredCopies (buffer @ sampleImage) sampleImage
      else Some buffer)"

definition trimToSize :: "nat \<Rightarrow> buffer \<Rightarrow> buffer" where
  "trimToSize targetSizeBytes buffer =
     (if length buffer > targetSizeBytes then take targetSizeBytes buffer else buffer)"

definition padToSize :: "nat \<Rightarrow> buffer \<Rightarrow> buffer" where
  "padToSize targetSizeBytes buffer =
     (if length buffer < targetSizeBytes
      then buffer @ replicate (targetSizeBytes - length buffer) 0
      else buffer)"

definition sizeWarning :: "nat \<Rightarrow> buffer \<Rightarrow> event list" where
  "sizeWarning sizeMB buffer =
     (let actualSizeMB = js_div (Fin (real (length buffer))) (js_mul (Fin 1024) (Fin 1024))
      in if js_gt (js_abs (js_sub actualSizeMB (Fin (real sizeMB)))) (Fin (fl (1 / 100)))
         then [SizeWarning sizeMB actualSizeMB] else [])"

definition createTestImageBuffer ::
  "nat \<Rightarrow> sample_file \<Rightarrow> (buffer \<times> event list) completion option" where
  "createTestImageBuffer sizeMB file =
     (case file of
        Missing \<Rightarrow> Some (Exited 1)
      | Unreadable msg \<Rightarrow> Some (Thrown msg)
      | Contents sampleImage \<Rightarrow>
          (let targetSizeBytes = sizeMB * 1024 * 1024;
               requiredCopies =
                 js_ceil (js_div (Fin (real targetSizeBytes)) (Fin (real (length sampleImage))))
           in case appendCopies 0 requiredCopies [] sampleImage of
                None \<Rightarrow> None
              | Some copies \<Rightarrow>
                  (let buffer = padToSize targetSizeBytes (trimToSize targetSizeBytes copies)
                   in Some (Returned (buffer, sizeWarning sizeMB buffer)))))"

section \<open>One upload request\<close>

record server_timings =
  totalProcessingTime :: "jsnum option"

record server_sizes =
  totalOriginalSize :: "jsnum option"
  totalProcessedSize :: "(string \<times> jsnum) list option"

text \<open>
  What \<^verbatim>\<open>axios.post\<close> settles to: a response whose body is \<^verbatim>\<open>null\<close> or an object
  that may carry \<^verbatim>\<open>timings\<close> and \<^verbatim>\<open>sizes\<close>, or a rejection (a network error, or a
  response with an error status) with its message.
\<close>

datatype response_data = NullBody | Body "server_timings option" "server_sizes option"

datatype post_result = Resolved response_data | Rejected string

record form_part =
  field :: string
  content :: buffer
  file_no :: nat

text \<open>
  What one request reads, one field for each of its reads: the clock before the post
  (\<^verbatim>\<open>startTime\<close>), what the post of the multipart body settles to, the clock in the
  \<^verbatim>\<open>try\<close> block once the response is there, and the clock in the \<^verbatim>\<open>catch\<close> block.
\<close>

record req_env =
  posted_at :: jsnum
  post :: "form_part list \<Rightarrow> post_result"
  settled_at :: jsnum
  caught_at :: jsnum

record request_outcome =
  success :: bool
  duration :: jsnum
  timings :: "server_timings option"
  sizes :: "server_sizes option"
  error :: "string option"

text \<open>
  \<^verbatim>\<open>for (let i = 0; i < numImages; i++) formData.append('media', imageBuffer, ...)\<close>:
  the multipart body has \<^verbatim>\<open>numImages\<close> parts under the field \<^verbatim>\<open>media\<close>, part \<open>i\<close> with
  the file name \<^verbatim>\<open>test_image_${i + 1}.jpg\<close>. The payload is a buffer and the count a
  natural number, and appending a buffer does not throw.
\<close>

definition formData :: "nat \<Rightarrow> buffer \<Rightarrow> form_part list" where
  "formData numImages imageBuffer =
     map (\<lambda>i. \<lparr>field = ''media'', content = imageBuffer, file_no = i + 1\<rparr>) [0..<numImages]"

text \<open>
  The \<^verbatim>\<open>try\<close> block. \<^verbatim>\<open>await axios.post(...)\<close> throws the rejection of the post. Of
  a response the block reads the clock and then \<^verbatim>\<open>response.data.timings\<close> and
  \<^verbatim>\<open>response.data.sizes\<close>; the read throws a TypeError when the body is \<^verbatim>\<open>null\<close>.
\<close>

definition tryPost :: "form_part list \<Rightarrow> jsnum \<Rightarrow> req_env \<Rightarrow> request_outcome or_throws" where
  "tryPost form started env =
     (case post env form of
        Rejected message \<Rightarrow> Inl message
      | Resolved data \<Rightarrow>
          (let endTime = settled_at env;
               duration = js_sub endTime started
           in case data of
                NullBody \<Rightarrow> Inl null_body_message
              | Body t s \<Rightarrow>
                  Inr \<lparr>success = True, duration = duration, timings = t, sizes = s,
                       error = None\<rparr>))"

text \<open>
  \<^verbatim>\<open>sendImageResizeRequest\<close> builds the form, reads the clock and runs the \<^verbatim>\<open>try\<close>
  block; the \<^verbatim>\<open>catch\<close> block reads the clock again and returns the failed outcome
  with the message of the error. The result is what the promise of this
  \<^verbatim>\<open>async\<close> function settles to.
\<close>

definition sendImageResizeRequest ::
  "nat \<Rightarrow> buffer \<Rightarrow> req_env \<Rightarrow> request_outcome or_throws" where
  "sendImageResizeRequest numImages imageBuffer env =
     (let form = formData numImages imageBuffer;
          startTime = posted_at env
      in case tryPost form startTime env of
           Inr outcome \<Rightarrow> Inr outcome
         | Inl message \<Rightarrow>
             (let endTime = caught_at env;
                  duration = js_sub endTime startTime
              in Inr \<lparr>success = False, duration = duration, timings = None, sizes = None,
                      error = Some message\<rparr>))"

section \<open>A batch of concurrent requests\<close>

text \<open>
  What a batch reads from its environment: the process readings of its monitor, the
  environment of each dispatched request, the clock around the wait, and which side of
  \<^verbatim>\<open>Promise.race\<close> settles first.
\<close>

record run_env =
  mon_created :: proc_reads
  mon_started :: proc_reads
  req_envs :: "nat \<Rightarrow> req_env"
  wait_start :: jsnum
  timeout_first :: bool
  mon_ticks :: "sample_reads list"
  wait_end :: jsnum
  mon_stopped :: sample_reads

record concurrent_run =
  results :: "request_outcome list"
  resourceUsage :: "resource_usage option"
  safetyTriggered :: bool
  console :: "event list"
  posted :: "form_part list list"

text \<open>
  \<^verbatim>\<open>for (let i = 0; i < adjustedNumRequests; i++) requests.push(sendImageResizeRequest(...))\<close>:
  every turn of the loop posts one form; the entry is what the promise of the request
  settles to, next to the form.
\<close>

function dispatch ::
  "nat \<Rightarrow> int \<Rightarrow> nat \<Rightarrow> buffer \<Rightarrow> (nat \<Rightarrow> req_env)
    \<Rightarrow> (request_outcome or_throws \<times> form_part list) list" where
  "dispatch i adjustedNumRequests numImages imageBuffer envs =
     (if int i < adjustedNumRequests
      then (sendImageResizeRequest numImages imageBuffer (envs i),
            formData numImages imageBuffer)
           # dispatch (i + 1) adjustedNumRequests numImages imageBuffer envs
      else [])"
  by pat_completeness auto
termination
  by (relation "measure (\<lambda>(i, n, _). nat (n - int i))") auto

declare dispatch.simps [simp del]

text \<open>
  \<^verbatim>\<open>Promise.all\<close>: the values in the order of the promises when every promise is
  fulfilled, and otherwise a rejection with the reason of a rejected promise (of the
  first one in the list here; in JavaScript, of the one that is rejected first).
\<close>

fun promiseAll :: "'a or_throws list \<Rightarrow> 'a list or_throws" where
  "promiseAll [] = Inr []"
| "promiseAll (Inl message # ps) = Inl message"
| "promiseAll (Inr x # ps) =
     (case promiseAll ps of Inl message \<Rightarrow> Inl message | Inr xs \<Rightarrow> Inr (x # xs))"

definition avgDuration :: "request_outcome list \<Rightarrow> jsnum" where
  "avgDuration successfulResults =
     js_div (foldl (\<lambda>sum r. js_add sum (duration r)) (Fin 0) successfulResults)
       (Fin (real (length successfulResults)))"

text \<open>
  \<^verbatim>\<open>if (r.timings && r.timings.totalProcessingTime) return sum + r.timings.totalProcessingTime;\<close>
\<close>

definition addProcessingTime :: "jsnum \<Rightarrow> request_outcome \<Rightarrow> jsnum" where
  "addProcessingTime acc r =
     (case timings r of
        None \<Rightarrow> acc
      | Some t \<Rightarrow>
          (case totalProcessingTime t of
             None \<Rightarrow> acc
           | Some v \<Rightarrow> if js_truthy v then js_add acc v else acc))"

definition avgProcessingTime :: "request_outcome list \<Rightarrow> jsnum" where
  "avgProcessingTime successfulResults =
     js_div (foldl addProcessingTime (Fin 0) successfulResults)
       (Fin (real (length successfulResults)))"

definition compressionReport :: "server_sizes \<Rightarrow> nat \<Rightarrow> event list" where
  "compressionReport sz numImages =
     (let total = js_number (totalOriginalSize sz)
      in CompressionResults (js_div (js_div total (Fin 1024)) (Fin (real numImages)))
           (js_div total (Fin 1024))
         # (case totalProcessedSize sz of
              None \<Rightarrow> []
            | Some entries \<Rightarrow>
                map (\<lambda>(quality, size). QualitySize quality (js_div size (Fin 1024))
                       (js_div total size)) entries))"

text \<open>The block guarded by \<^verbatim>\<open>if (successfulResults.length > 0)\<close>.\<close>

definition reportAverages :: "request_outcome list \<Rightarrow> nat \<Rightarrow> event list" where
  "reportAverages successfulResults numImagesPerRequest =
     (case successfulResults of
        [] \<Rightarrow> []
      | firstSuccessfulResult # others \<Rightarrow>
          [AverageRequestDuration (avgDuration successfulResults),
           AverageProcessingTime (avgProcessingTime successfulResults)]
          @ (case sizes firstSuccessfulResult of
               None \<Rightarrow> []
             | Some sz \<Rightarrow> compressionReport sz numImagesPerRequest))"

text \<open>The three lines printed for every batch that completes.\<close>

definition resultLines :: "int \<Rightarrow> jsnum \<Rightarrow> request_outcome list \<Rightarrow> event list" where
  "resultLines adjustedNumRequests totalDuration outcomes =
     (let successCount = length (filter success outcomes)
      in [ResultsFor adjustedNumRequests, TotalTime totalDuration,
          SuccessRate successCount adjustedNumRequests
            (js_mul (js_div (Fin (real successCount)) (Fin (of_int adjustedNumRequests)))
               (Fin 100))])"

definition timeout_message :: string where
  "timeout_message = ''Timeout: Scenario took longer than 300 seconds''"

text \<open>
  \<^verbatim>\<open>runConcurrentRequests\<close>. The \<^verbatim>\<open>catch\<close> block is reached when the timer wins the
  race, and would be reached by the rejection of a request and by a throw of
  \<^verbatim>\<open>printResults\<close>; its \<^verbatim>\<open>monitor.stop()\<close> changes only the local monitor, which is
  dropped. The samples of the timer (\<open>mon_ticks\<close>) are taken while the batch is awaited.
\<close>

definition runConcurrentRequests ::
  "int \<Rightarrow> nat \<Rightarrow> buffer \<Rightarrow> run_env \<Rightarrow> concurrent_run" where
  "runConcurrentRequests numRequests numImagesPerRequest imageBuffer env =
     (let adjustedNumRequests = min numRequests (maxConcurrentRequests SAFETY_LIMITS);
          notice = (if adjustedNumRequests < numRequests
                    then [SafetyLimitApplied numRequests adjustedNumRequests] else []);
          running = [RunningRequests adjustedNumRequests numImagesPerRequest];
          monitor = start (new_ResourceMonitor (mon_created env)) (mon_started env);
          requests =
            dispatch 0 adjustedNumRequests numImagesPerRequest imageBuffer (req_envs env);
          startTime = wait_start env
      in if timeout_first env
         then \<lparr>results = [], resourceUsage = None, safetyTriggered = True,
               console = notice @ running @ [SafetyMechanismTriggered timeout_message],
               posted = map snd requests\<rparr>
         else
           (case promiseAll (map fst requests) of
              Inl message \<Rightarrow>
                \<lparr>results = [], resourceUsage = None, safetyTriggered = True,
                 console = notice @ running @ [SafetyMechanismTriggered message],
                 posted = map snd requests\<rparr>
            | Inr outcomes \<Rightarrow>
                (let results = outcomes;
                     endTime = wait_end env;
                     totalDuration = js_sub endTime startTime;
                     (resourceUsage, stopped) =
                       stop (foldl sample monitor (mon_ticks env)) (mon_stopped env)
                 in case printResults stopped (ConcurrentRequests adjustedNumRequests) of
                      (printed, Inl message) \<Rightarrow>
                        \<lparr>results = [], resourceUsage = None, safetyTriggered = True,
                         console = notice @ running @ printed
                           @ [SafetyMechanismTriggered message],
                         posted = map snd requests\<rparr>
                    | (printed, Inr u) \<Rightarrow>
                        \<lparr>results = results, resourceUsage = Some resourceUsage,
                         safetyTriggered = False,
                         console = notice @ running @ printed
                           @ resultLines adjustedNumRequests totalDuration results
                           @ reportAverages (filter success results) numImagesPerRequest,
                         posted = map snd requests\<rparr>)))"

text \<open>
  The mean of the specification's words: over the successful outcomes that report a
  processing time, the sum of the reported times divided by their number.
\<close>

definition reportedTime :: "request_outcome \<Rightarrow> jsnum list" where
  "reportedTime r =
     (case timings r of
        None \<Rightarrow> []
      | Some t \<Rightarrow> (case totalProcessingTime t of None \<Rightarrow> [] | Some v \<Rightarrow> [v]))"

definition reportedTimes :: "request_outcome list \<Rightarrow> jsnum list" where
  "reportedTimes rs = concat (map reportedTime (filter success rs))"

definition spec_mean_processing_time :: "request_outcome list \<Rightarrow> jsnum" where
  "spec_mean_processing_time rs =
     js_div (foldl js_add (Fin 0) (reportedTimes rs)) (Fin (real (length (reportedTimes rs))))"

text \<open>An outcome that reports a processing time the harness counts (not 0, not NaN).\<close>

definition reportsTime :: "request_outcome \<Rightarrow> bool" where
  "reportsTime r = (case reportedTime r of [] \<Rightarrow> False | v # vs \<Rightarrow> js_truthy v)"

subsection \<open>Example environments\<close>

text \<open>
  A batch whose requests are posted at 0 ms and settle at 100 ms with the given results,
  on an idle process, with or without the timer winning the race.
\<close>

definition example_env :: "bool \<Rightarrow> (nat \<Rightarrow> post_result) \<Rightarrow> run_env" where
  "example_env timeout posts =
     \<lparr>mon_created = idle_reads 0, mon_started = idle_reads 0,
      req_envs = (\<lambda>i. \<lparr>posted_at = Fin 0, post = (\<lambda>form. posts i), settled_at = Fin 100,
                        caught_at = Fin 100\<rparr>),
      wait_start = Fin 0, timeout_first = timeout, mon_ticks = [], wait_end = Fin 100,
      mon_stopped = busy_reads 0 0 100 4\<rparr>"

text \<open>
  Every response reports a processing time of 100 ms; only the first response does (the
  others are successful responses without \<^verbatim>\<open>timings\<close>); every request is refused.
\<close>

definition timed_posts :: "nat \<Rightarrow> post_result" where
  "timed_posts i = Resolved (Body (Some \<lparr>totalProcessingTime = Some (Fin 100)\<rparr>) None)"

definition mixed_posts :: "nat \<Rightarrow> post_result" where
  "mixed_posts i =
     (if i = 0 then Resolved (Body (Some \<lparr>totalProcessingTime = Some (Fin 100)\<rparr>) None)
      else Resolved (Body None None))"

definition refused_posts :: "nat \<Rightarrow> post_result" where
  "refused_posts i = Rejected ''connect ECONNREFUSED''"

section \<open>The scenario runner\<close>

record scenario =
  name :: string
  concurrency :: int
  images :: nat

definition scenarios :: "scenario list" where
  "scenarios =
     [\<lparr>name = ''Single request with 8 images'', concurrency = 1, images = 8\<rparr>,
      \<lparr>name = ''10 concurrent requests with 8 images each'', concurrency = 10, images = 8\<rparr>,
      \<lparr>name = ''50 concurrent requests with 8 images each'', concurrency = 50, images = 8\<rparr>]"

text \<open>
  One turn of the loop over the scenarios: the scenario is skipped, or it runs and
  leaves \<^verbatim>\<open>previousScenarioFailed\<close> as given, or a throw leaves the loop.
\<close>

datatype turn_kind = Skipped | Ran bool | Threw string

record turn =
  kind :: turn_kind
  emitted :: "event list"
  requests_posted :: "form_part list list"

text \<open>
  The single-request branch (\<^verbatim>\<open>scenario.concurrency === 1\<close>): the monitor is started,
  the request awaited, the monitor stopped and its results printed, then the outcome
  reported. A successful outcome without \<^verbatim>\<open>timings\<close>, or without a processing time in
  them, makes the second line of the report throw a TypeError.
\<close>

definition runSingleRequest :: "scenario \<Rightarrow> buffer \<Rightarrow> run_env \<Rightarrow> turn" where
  "runSingleRequest sc imageBuffer env =
     (let monitor = start (new_ResourceMonitor (mon_created env)) (mon_started env);
          form = [formData (images sc) imageBuffer]
      in case sendImageResizeRequest (images sc) imageBuffer (req_envs env 0) of
           Inl message \<Rightarrow> \<lparr>kind = Threw message, emitted = [], requests_posted = form\<rparr>
         | Inr singleResult \<Rightarrow>
             (let (resourceUsage, stopped) =
                    stop (foldl sample monitor (mon_ticks env)) (mon_stopped env)
              in case printResults stopped (SingleRequest (images sc)) of
                   (printed, Inl message) \<Rightarrow>
                     \<lparr>kind = Threw message, emitted = printed, requests_posted = form\<rparr>
                 | (printed, Inr u) \<Rightarrow>
                     if success singleResult
                     then (case timings singleResult of
                             None \<Rightarrow>
                               \<lparr>kind = Threw no_timings_message,
                                emitted = printed @ [RequestCompleted (duration singleResult)],
                                requests_posted = form\<rparr>
                           | Some t \<Rightarrow>
                               (case totalProcessingTime t of
                                  None \<Rightarrow>
                                    \<lparr>kind = Threw no_processing_time_message,
                                     emitted = printed
                                       @ [RequestCompleted (duration singleResult)],
                                     requests_posted = form\<rparr>
                                | Some v \<Rightarrow>
                                    \<lparr>kind = Ran False,
                                     emitted = printed
                                       @ [RequestCompleted (duration singleResult),
                                          ProcessingTime v]
                                       @ (case sizes singleResult of
                                            None \<Rightarrow> []
                                          | Some sz \<Rightarrow> compressionReport sz (images sc)),
                                     requests_posted = form\<rparr>))
                     else \<lparr>kind = Ran True,
                           emitted = printed
                             @ [RequestFailed (duration singleResult) (error singleResult)],
                           requests_posted = form\<rparr>))"

text \<open>
  The body of the loop for a scenario that is not skipped: the banner, one of the two
  branches, and the cool-down.
\<close>

definition runScenario :: "scenario \<Rightarrow> buffer \<Rightarrow> run_env \<Rightarrow> turn" where
  "runScenario sc imageBuffer env =
     (let banner = [ScenarioBanner (name sc)];
          cooling = [CoolingDown (minDelayBetweenScenariosSec SAFETY_LIMITS)]
      in if concurrency sc = 1
         then (let t = runSingleRequest sc imageBuffer env
               in case kind t of
                    Ran failed \<Rightarrow> t\<lparr>emitted := banner @ emitted t @ cooling\<rparr>
                  | other \<Rightarrow> t\<lparr>emitted := banner @ emitted t\<rparr>)
         else (let result = runConcurrentRequests (concurrency sc) (images sc) imageBuffer env
               in \<lparr>kind = Ran (safetyTriggered result),
                   emitted = banner @ console result @ cooling,
                   requests_posted = posted result\<rparr>))"

text \<open>The turn of a skipped scenario: the message that names it, and nothing else.\<close>

definition skipScenario :: "scenario \<Rightarrow> turn" where
  "skipScenario sc =
     \<lparr>kind = Skipped, emitted = [SkippingScenario (name sc)], requests_posted = []\<rparr>"

text \<open>
  \<^verbatim>\<open>for (const scenario of scenarios) { if (previousScenarioFailed) { ...; continue; } ... }\<close>
  Each scenario comes with the environment it would run in. A scenario runs only while
  the flag is clear, so after a run the flag is what that run leaves.
\<close>

fun scenarioLoop :: "bool \<Rightarrow> buffer \<Rightarrow> (scenario \<times> run_env) list \<Rightarrow> turn list" where
  "scenarioLoop previousScenarioFailed imageBuffer [] = []"
| "scenarioLoop previousScenarioFailed imageBuffer ((sc, env) # rest) =
     (if previousScenarioFailed
      then skipScenario sc # scenarioLoop previousScenarioFailed imageBuffer rest
      else (let t = runScenario sc imageBuffer env
            in case kind t of
                 Ran failed \<Rightarrow> t # scenarioLoop failed imageBuffer rest
               | other \<Rightarrow> [t]))"

text \<open>The flag and the pending throw when the loop is left.\<close>

definition failedAfter :: "bool \<Rightarrow> turn list \<Rightarrow> bool" where
  "failedAfter previousScenarioFailed ts =
     (previousScenarioFailed \<or> list_ex (\<lambda>t. kind t = Ran True) ts)"

definition thrownIn :: "turn list \<Rightarrow> string option" where
  "thrownIn ts =
     (case ts of
        [] \<Rightarrow> None
      | t # earlier \<Rightarrow> (case kind (last ts) of Threw msg \<Rightarrow> Some msg | other \<Rightarrow> None))"

text \<open>
  \<^verbatim>\<open>runBenchmarks\<close>: the payload, the loop over the fixed scenarios, and the closing
  suggestions when no scenario failed; a throw anywhere ends in the \<^verbatim>\<open>catch\<close> block.
  The memory watchdog of \<^verbatim>\<open>startSafetyMonitor\<close>, which ends the whole process from a
  timer, is outside this function's own control flow and is not part of the model.
\<close>

definition runBenchmarks ::
  "sample_file \<Rightarrow> (nat \<Rightarrow> run_env) \<Rightarrow> event list completion option" where
  "runBenchmarks file envs =
     (case createTestImageBuffer TARGET_SIZE_MB file of
        None \<Rightarrow> None
      | Some (Exited code) \<Rightarrow> Some (Exited code)
      | Some (Thrown msg) \<Rightarrow> Some (Returned [ErrorCreatingBuffer msg, BenchmarkFailed msg])
      | Some (Returned (imageBuffer, warned)) \<Rightarrow>
          (let ts = scenarioLoop False imageBuffer
                      (zip scenarios (map envs [0..<length scenarios]));
               out = warned @ concat (map emitted ts)
           in case thrownIn ts of
                Some msg \<Rightarrow> Some (Returned (out @ [BenchmarkFailed msg]))
              | None \<Rightarrow>
                  Some (Returned
                    (out @ (if \<not> failedAfter False ts then [OptimizationSuggestions] else [])))))"

chapter \<open>The image resizer and its benchmark harness: properties\<close>

section \<open>Facts about the number model\<close>

text \<open>Rounding never yields NaN, and NaN arises only from NaN, \<open>0 / 0\<close> or \<open>0 * Infinity\<close>.\<close>

lemma js_round_not_NaN: "js_round x \<noteq> NaN"
  by (simp add: js_round_def Let_def)

lemma js_floor_NaN_iff: "js_floor x = NaN \<longleftrightarrow> x = NaN"
  by (cases x) simp_all

lemma js_mul_not_NaN: "c \<noteq> 0 \<Longrightarrow> x \<noteq> NaN \<Longrightarrow> js_mul x (Fin c) \<noteq> NaN"
  by (cases x) (simp_all add: js_round_not_NaN)

lemma js_div_not_NaN: "c \<noteq> 0 \<Longrightarrow> x \<noteq> NaN \<Longrightarrow> js_div (Fin c) x \<noteq> NaN"
  by (cases x) (simp_all add: js_round_not_NaN)

text \<open>A lower bound above the upper bound makes the clamp constant.\<close>

lemma js_min_10_max_30: "x \<noteq> NaN \<Longrightarrow> js_min (Fin 10) (js_max (Fin 30) x) = Fin 10"
  by (cases x) simp_all

lemma js_max_10_min_30:
  "x \<noteq> NaN \<Longrightarrow> \<exists>q. js_max (Fin 10) (js_min (Fin 30) x) = Fin q \<and> 10 \<le> q \<and> q \<le> 30"
  by (cases x) simp_all

text \<open>
  Integers below \<open>2^53\<close> in magnitude are binary64 values: rounding leaves them as they
  are.
\<close>

lemma rne_of_int: "rne (of_int n) = n"
  by (simp add: rne_def Let_def)

lemma scale_up_shape: "\<exists>k. scale_up n y q = (y * 2 ^ k, q - int k)"
proof (induction n arbitrary: y q)
  case 0
  have "scale_up 0 y q = (y * 2 ^ 0, q - int 0)" by simp
  then show ?case by blast
next
  case (Suc n)
  show ?case
  proof (cases "y < 2 ^ 52")
    case True
    from Suc.IH [of "y * 2" "q - 1"] obtain k
      where "scale_up n (y * 2) (q - 1) = (y * 2 * 2 ^ k, q - 1 - int k)" by blast
    with True have "scale_up (Suc n) y q = (y * 2 ^ Suc k, q - int (Suc k))"
      by (simp add: mult.assoc)
    then show ?thesis by blast
  next
    case False
    then have "scale_up (Suc n) y q = (y * 2 ^ 0, q - int 0)" by simp
    then show ?thesis by blast
  qed
qed

lemma scale_up_steps:
  "2 ^ 52 \<le> y * 2 ^ k \<Longrightarrow> y * 2 ^ k < 2 ^ 53 \<Longrightarrow> k \<le> n
    \<Longrightarrow> scale_up n y q = (y * 2 ^ k, q - int k)"
proof (induction k arbitrary: n y q)
  case 0
  then show ?case by (cases n) simp_all
next
  case (Suc k)
  from Suc.prems obtain m where n: "n = Suc m" and km: "k \<le> m"
    by (cases n) auto
  have "y * 2 < 2 ^ 53"
  proof (cases "0 \<le> y")
    case True
    have "(1::real) \<le> 2 ^ k" by simp
    then have "(y * 2) * 1 \<le> (y * 2) * 2 ^ k"
      using True by (intro mult_left_mono) simp_all
    also have "\<dots> < 2 ^ 53" using Suc.prems by (simp add: mult.assoc)
    finally show ?thesis by simp
  next
    case False
    then have "y * 2 < 0" by simp
    also have "(0::real) < 2 ^ 53" by simp
    finally show ?thesis .
  qed
  then have y: "y < 2 ^ 52" by simp
  have "scale_up m (y * 2) (q - 1) = (y * 2 * 2 ^ k, q - 1 - int k)"
    using Suc.prems km by (intro Suc.IH) (simp_all add: mult.assoc)
  with y show ?case by (simp add: n mult.assoc)
qed

lemma fl_int_pos:
  assumes "0 < n" "n < 2 ^ 53"
  shows "fl (of_int n) = of_int n"
proof -
  obtain k where k: "scale_up 1074 (of_int n) 0 = (of_int n * 2 ^ k, 0 - int k)"
    using scale_up_shape by blast
  have "of_int n * (2::real) ^ k = of_int (n * 2 ^ k)" by simp
  then have r: "rne (of_int n * 2 ^ k) = n * 2 ^ k" by (simp only: rne_of_int)
  have lt: "\<not> (2::real) ^ 53 \<le> \<bar>of_int n\<bar>"
  proof -
    have "of_int n < (of_int (2 ^ 53) :: real)" using assms by (simp only: of_int_less_iff)
    then show ?thesis using assms by simp
  qed
  show ?thesis
    using assms lt k r by (simp add: fl_def power_int_minus field_simps)
qed

lemma fl_zero: "fl 0 = 0"
  by (simp add: fl_def)

lemma fl_minus: "fl (- x) = - fl x"
  by (simp add: fl_def sgn_minus split: prod.splits)

lemma fl_int: "\<bar>n\<bar> < 2 ^ 53 \<Longrightarrow> fl (of_int n) = of_int n"
proof -
  assume a: "\<bar>n\<bar> < 2 ^ 53"
  consider "n = 0" | "0 < n" | "n < 0" by linarith
  then show ?thesis
  proof cases
    case 1
    then show ?thesis by (simp add: fl_zero)
  next
    case 2
    with a show ?thesis by (intro fl_int_pos) simp_all
  next
    case 3
    with a have "fl (of_int (- n)) = of_int (- n)" by (intro fl_int_pos) simp_all
    then show ?thesis using fl_minus [of "of_int n"] by simp
  qed
qed

lemma js_round_int: "\<bar>n\<bar> < 2 ^ 53 \<Longrightarrow> js_round (of_int n) = Fin (of_int n)"
proof -
  assume a: "\<bar>n\<bar> < 2 ^ 53"
  have "(2::int) ^ 53 \<le> 2 ^ 1024" by (intro power_increasing) simp_all
  with a have b: "n < 2 ^ 1024" "- (2 ^ 1024) < n" by linarith+
  have "real_of_int n < real_of_int (2 ^ 1024)" using b(1) by (simp only: of_int_less_iff)
  moreover have "real_of_int (- (2 ^ 1024)) < real_of_int n" using b(2) by (simp only: of_int_less_iff)
  ultimately show ?thesis using a by (simp add: js_round_def fl_int)
qed

lemma js_round_numeral:
  "(numeral w :: int) < 2 ^ 53 \<Longrightarrow> js_round (numeral w) = Fin (numeral w)"
  using js_round_int [of "numeral w"] by simp

lemma js_round_neg_numeral:
  "(numeral w :: int) < 2 ^ 53 \<Longrightarrow> js_round (- numeral w) = Fin (- numeral w)"
  using js_round_int [of "- numeral w"] by simp

lemma js_round_0: "js_round 0 = Fin 0"
  using js_round_int [of 0] by simp

lemma js_round_1: "js_round 1 = Fin 1"
  using js_round_int [of 1] by simp

lemma js_round_nat: "n < 2 ^ 53 \<Longrightarrow> js_round (real n) = Fin (real n)"
  using js_round_int [of "int n"] by simp

text \<open>
  Rounding a positive value whose significand at the quantum \<open>2^-k\<close> lies in
  \<open>[2^52, 2^53)\<close>: the value is rounded to a multiple of that quantum.
\<close>

lemma rne_bounds: "x - 1 / 2 \<le> of_int (rne x)" "of_int (rne x) \<le> x + 1 / 2"
  unfolding rne_def Let_def by (simp_all; linarith)+

lemma fl_eval:
  assumes "0 < x" "2 ^ 52 \<le> x * 2 ^ k" "x * 2 ^ k < 2 ^ 53" "k \<le> 1074"
  shows "fl x = of_int (rne (x * 2 ^ k)) / 2 ^ k"
proof -
  have "x * 1 \<le> x * 2 ^ k"
    using assms(1) by (intro mult_left_mono) simp_all
  then have "x \<le> x * 2 ^ k" by (simp only: mult_1_right)
  with assms(3) have "x < 2 ^ 53" by linarith
  then have lt: "\<not> 2 ^ 53 \<le> \<bar>x\<bar>" using assms(1) by simp
  have "scale_up 1074 x 0 = (x * 2 ^ k, 0 - int k)"
    using assms by (intro scale_up_steps)
  with lt assms(1) show ?thesis
    by (simp add: fl_def power_int_minus field_simps)
qed

lemma js_round_eval:
  assumes "0 < x" "2 ^ 52 \<le> x * 2 ^ k" "x * 2 ^ k < 2 ^ 53" "k \<le> 1074"
  shows "js_round x = Fin (of_int (rne (x * 2 ^ k)) / 2 ^ k)"
proof -
  let ?r = "of_int (rne (x * 2 ^ k)) / (2::real) ^ k"
  have f: "fl x = ?r" using assms by (rule fl_eval)
  have "of_int (rne (x * 2 ^ k)) \<le> x * 2 ^ k + 1 / 2" by (rule rne_bounds)
  with assms(3) have up: "real_of_int (rne (x * 2 ^ k)) < 2 ^ 54" by simp
  have "x * 2 ^ k - 1 / 2 \<le> of_int (rne (x * 2 ^ k))" by (rule rne_bounds)
  with assms(2) have lo: "0 \<le> real_of_int (rne (x * 2 ^ k))" by simp
  have "?r \<le> of_int (rne (x * 2 ^ k)) / 1"
    using lo by (intro divide_left_mono) simp_all
  with up have "?r < 2 ^ 54" by simp
  also have "(2::real) ^ 54 \<le> 2 ^ 1024" by (intro power_increasing) simp_all
  finally have a: "?r < 2 ^ 1024" .
  have "0 \<le> ?r" using lo by simp
  then have b: "\<not> ?r \<le> - (2 ^ 1024)"
  proof -
    have "(0::real) < 2 ^ 1024" by simp
    with \<open>0 \<le> ?r\<close> show ?thesis by linarith
  qed
  show ?thesis using a b by (simp add: js_round_def f del: power_numeral)
qed

text \<open>
  A value in \<open>[0, 2^53)\<close> rounds to a value in \<open>[0, x + 1/2]\<close>, so its rounding is
  finite.
\<close>

lemma fl_nonneg_bounds:
  assumes "0 \<le> x" "x < 2 ^ 53"
  shows "0 \<le> fl x" "fl x \<le> x + 1 / 2"
proof -
  obtain k where k: "scale_up 1074 x 0 = (x * 2 ^ k, 0 - int k)"
    using scale_up_shape by blast
  have f: "fl x = (if x = 0 then 0 else of_int (rne (x * 2 ^ k)) / 2 ^ k)"
    using assms k by (simp add: fl_def power_int_minus field_simps)
  have lo: "x * 2 ^ k - 1 / 2 \<le> of_int (rne (x * 2 ^ k))"
    and hi: "of_int (rne (x * 2 ^ k)) \<le> x * 2 ^ k + 1 / 2"
    by (rule rne_bounds)+
  have "- 1 < real_of_int (rne (x * 2 ^ k))"
  proof -
    have "0 \<le> x * 2 ^ k" using assms(1) by simp
    with lo show ?thesis by linarith
  qed
  then have "0 \<le> rne (x * 2 ^ k)" by linarith
  then show "0 \<le> fl x" by (simp add: f)
  have "of_int (rne (x * 2 ^ k)) / 2 ^ k \<le> (x * 2 ^ k + 1 / 2) / 2 ^ k"
    using hi by (intro divide_right_mono) simp_all
  also have "\<dots> = x + (1 / 2) / 2 ^ k" by (simp add: field_simps)
  also have "\<dots> \<le> x + (1 / 2) / 1"
    by (intro add_left_mono divide_left_mono) simp_all
  finally show "fl x \<le> x + 1 / 2" using assms(1) by (simp add: f)
qed

lemma js_round_finite:
  assumes "0 \<le> x" "x < 2 ^ 53"
  shows "js_round x = Fin (fl x)"
proof -
  have "fl x \<le> x + 1 / 2" "0 \<le> fl x" using assms by (rule fl_nonneg_bounds)+
  moreover have "(2::real) ^ 53 + 1 / 2 < 2 ^ 1024"
  proof -
    have "(2::real) ^ 53 + 1 / 2 < 2 ^ 54" by simp
    also have "(2::real) ^ 54 \<le> 2 ^ 1024" by (intro power_increasing) simp_all
    finally show ?thesis .
  qed
  moreover have "(0::real) < 2 ^ 1024" by simp
  ultimately have "fl x < 2 ^ 1024" "\<not> fl x \<le> - (2 ^ 1024)"
    using assms(2) by linarith+
  then show ?thesis by (simp add: js_round_def Let_def del: power_numeral)
qed

text \<open>
  Values below \<open>2^33\<close> carry at least 20 binary digits after the point, so a multiple of
  \<open>2^-20\<close> below \<open>2^33\<close> is a binary64 value, and a smaller positive value does not round
  above it.
\<close>

lemma scale_up_stops:
  "\<exists>k\<le>n. scale_up n y q = (y * 2 ^ k, q - int k) \<and> (k = n \<or> 2 ^ 52 \<le> y * 2 ^ k)"
proof (induction n arbitrary: y q)
  case 0
  have "scale_up 0 y q = (y * 2 ^ 0, q - int 0)" by simp
  then show ?case by blast
next
  case (Suc n)
  show ?case
  proof (cases "y < 2 ^ 52")
    case True
    from Suc.IH [of "y * 2" "q - 1"] obtain k
      where k: "k \<le> n" "scale_up n (y * 2) (q - 1) = (y * 2 * 2 ^ k, q - 1 - int k)"
        "k = n \<or> 2 ^ 52 \<le> y * 2 * 2 ^ k" by blast
    from True k(2) have "scale_up (Suc n) y q = (y * 2 ^ Suc k, q - int (Suc k))"
      by (simp add: mult.assoc)
    moreover from k(3) have "Suc k = Suc n \<or> 2 ^ 52 \<le> y * 2 ^ Suc k"
      by (simp add: mult.assoc)
    ultimately show ?thesis using k(1) by (intro exI [of _ "Suc k"]) simp
  next
    case False
    then have "scale_up (Suc n) y q = (y * 2 ^ 0, q - int 0)" "2 ^ 52 \<le> y * 2 ^ 0"
      by simp_all
    then show ?thesis by (intro exI [of _ 0]) simp
  qed
qed

lemma rne_le: "y \<le> of_int N \<Longrightarrow> rne y \<le> N"
  unfolding rne_def Let_def by (simp; linarith)

lemma fl_small:
  assumes "0 < x" "x < 2 ^ 33"
  shows "\<exists>k. 20 \<le> k \<and> fl x = of_int (rne (x * 2 ^ k)) / 2 ^ k"
proof -
  obtain k where k: "k \<le> 1074" "scale_up 1074 x 0 = (x * 2 ^ k, 0 - int k)"
      "k = 1074 \<or> 2 ^ 52 \<le> x * 2 ^ k"
    using scale_up_stops [of 1074 x 0] by blast
  have "20 \<le> k"
  proof (rule ccontr)
    assume "\<not> 20 \<le> k"
    then have k19: "k \<le> 19" by simp
    then have "(2::real) ^ k \<le> 2 ^ 19" by (intro power_increasing) simp_all
    then have "x * 2 ^ k \<le> x * 2 ^ 19"
      using assms(1) by (intro mult_left_mono) simp_all
    also have "\<dots> < 2 ^ 33 * 2 ^ 19"
      using assms(2) by (intro mult_strict_right_mono) simp_all
    also have "\<dots> = (2::real) ^ 52" by simp
    finally have "x * 2 ^ k < 2 ^ 52" .
    with k(3) k19 show False by simp
  qed
  moreover have "x < 2 ^ 53"
  proof -
    have "(2::real) ^ 33 \<le> 2 ^ 53" by (intro power_increasing) simp_all
    with assms(2) show ?thesis by linarith
  qed
  then have "\<not> 2 ^ 53 \<le> \<bar>x\<bar>" using assms(1) by simp
  with assms(1) k(2) have "fl x = of_int (rne (x * 2 ^ k)) / 2 ^ k"
    by (simp add: fl_def power_int_minus field_simps)
  ultimately show ?thesis by blast
qed

lemma dyadic_scaled:
  assumes "20 \<le> k"
  shows "real m / 2 ^ 20 * 2 ^ k = of_int (int m * 2 ^ (k - 20))"
proof -
  from assms obtain d where k: "k = 20 + d" using le_Suc_ex by blast
  show ?thesis by (simp add: k power_add)
qed

lemma fl_le_dyadic:
  assumes "0 < x" "x \<le> real m / 2 ^ 20" "m < 2 ^ 53"
  shows "fl x \<le> real m / 2 ^ 20"
proof -
  have "real m < real (2 ^ 53)" using assms(3) by (simp only: of_nat_less_iff)
  then have "real m / 2 ^ 20 < 2 ^ 53 / 2 ^ 20" by (intro divide_strict_right_mono) simp_all
  then have "real m / 2 ^ 20 < 2 ^ 33" by simp
  with assms(2) have "x < 2 ^ 33" by linarith
  with assms(1) obtain k where k: "20 \<le> k" "fl x = of_int (rne (x * 2 ^ k)) / 2 ^ k"
    using fl_small by blast
  have "x * 2 ^ k \<le> real m / 2 ^ 20 * 2 ^ k"
    using assms(2) by (intro mult_right_mono) simp_all
  then have "x * 2 ^ k \<le> of_int (int m * 2 ^ (k - 20))"
    by (simp only: dyadic_scaled [OF k(1)])
  then have "rne (x * 2 ^ k) \<le> int m * 2 ^ (k - 20)" by (rule rne_le)
  then have "real_of_int (rne (x * 2 ^ k)) \<le> of_int (int m * 2 ^ (k - 20))"
    by (simp only: of_int_le_iff)
  then have "real_of_int (rne (x * 2 ^ k)) \<le> real m / 2 ^ 20 * 2 ^ k"
    by (simp only: dyadic_scaled [OF k(1)])
  then have "real_of_int (rne (x * 2 ^ k)) / 2 ^ k \<le> (real m / 2 ^ 20 * 2 ^ k) / 2 ^ k"
    by (intro divide_right_mono) simp_all
  then show ?thesis by (simp add: k(2))
qed

lemma fl_dyadic:
  assumes "m < 2 ^ 53"
  shows "fl (real m / 2 ^ 20) = real m / 2 ^ 20"
proof (cases "m = 0")
  case True
  then show ?thesis by (simp add: fl_zero)
next
  case False
  let ?x = "real m / 2 ^ 20"
  have pos: "0 < ?x" using False by simp
  have "real m < real (2 ^ 53)" using assms by (simp only: of_nat_less_iff)
  then have "?x < 2 ^ 53 / 2 ^ 20" by (intro divide_strict_right_mono) simp_all
  then have "?x < 2 ^ 33" by simp
  with pos obtain k where k: "20 \<le> k" "fl ?x = of_int (rne (?x * 2 ^ k)) / 2 ^ k"
    using fl_small by blast
  have "rne (?x * 2 ^ k) = int m * 2 ^ (k - 20)"
    by (simp only: dyadic_scaled [OF k(1)] rne_of_int)
  then have "fl ?x = of_int (int m * 2 ^ (k - 20)) / 2 ^ k" by (simp only: k(2))
  also have "\<dots> = ?x * 2 ^ k / 2 ^ k" by (simp only: dyadic_scaled [OF k(1)])
  finally show ?thesis by simp
qed

lemma js_round_dyadic:
  assumes "m < 2 ^ 53"
  shows "js_round (real m / 2 ^ 20) = Fin (real m / 2 ^ 20)"
proof -
  have "real m < real (2 ^ 53)" using assms by (simp only: of_nat_less_iff)
  then have "real m / 2 ^ 20 < 2 ^ 53 / 2 ^ 20" by (intro divide_strict_right_mono) simp_all
  also have "\<dots> \<le> (2::real) ^ 53" by simp
  finally have "real m / 2 ^ 20 < 2 ^ 53" .
  then have "js_round (real m / 2 ^ 20) = Fin (fl (real m / 2 ^ 20))"
    by (intro js_round_finite) simp_all
  then show ?thesis by (simp only: fl_dyadic [OF assms])
qed

section \<open>The quality targets of the upload endpoint\<close>

lemma originalSizeKB_not_NaN: "originalSizeKB len \<noteq> NaN"
  by (simp add: originalSizeKB_def js_round_not_NaN)

text \<open>The low-quality target lies between 10 and 30.\<close>

lemma lowTargetQuality_range: "\<exists>q. lowTargetQuality len = Fin q \<and> 10 \<le> q \<and> q \<le> 30"
  unfolding lowTargetQuality_def
  by (intro js_max_10_min_30)
     (simp add: js_floor_NaN_iff js_mul_not_NaN js_div_not_NaN originalSizeKB_not_NaN)

text \<open>
  Claim C10. In \<^verbatim>\<open>processImage\<close> of the upload endpoint, the medium-quality JPEG target
  \<^verbatim>\<open>Math.min(10, Math.max(30, Math.floor(60 / originalSizeKB * 100)))\<close> is the constant
  10 for every length of the uploaded buffer, the empty buffer (where the division
  yields Infinity) included.
\<close>

theorem mediumTargetQuality_constant: "mediumTargetQuality len = Fin 10"
  unfolding mediumTargetQuality_def
  by (intro js_min_10_max_30)
     (simp add: js_floor_NaN_iff js_mul_not_NaN js_div_not_NaN originalSizeKB_not_NaN)

text \<open>An empty buffer and a buffer of 20 MB.\<close>

theorem mediumTargetQuality_constant_witness:
  "mediumTargetQuality 0 = Fin 10 \<and> mediumTargetQuality 20971520 = Fin 10"
  using mediumTargetQuality_constant [of 0] mediumTargetQuality_constant [of 20971520]
  by simp

section \<open>The resource monitor\<close>

subsection \<open>No samples\<close>

text \<open>
  After \<^verbatim>\<open>stop()\<close> the monitor holds at least the last sample, so \<^verbatim>\<open>printResults\<close>
  finds the averages and peaks and does not throw.
\<close>

lemma stop_samples: "\<exists>s. samples (snd (stop m r)) = samples m @ [s]"
  by (simp add: stop_def Let_def sample_def)

lemma stop_results: "fst (stop m r) = getResults (snd (stop m r))"
  by (simp add: stop_def Let_def)

lemma getResults_Summary:
  "samples m \<noteq> [] \<Longrightarrow> \<exists>a p. getResults m = Summary a p (samples m)"
  by (simp add: getResults_def Let_def)

lemma printResults_Summary:
  "getResults m = Summary a p ss \<Longrightarrow>
     printResults m l = ([ResourceUsage l a p], Inr (Summary a p ss))"
  by (simp add: printResults_def)

lemma printResults_stop:
  "\<exists>a p ss. fst (stop m r) = Summary a p ss
     \<and> printResults (snd (stop m r)) l = ([ResourceUsage l a p], Inr (Summary a p ss))"
proof -
  obtain s where "samples (snd (stop m r)) = samples m @ [s]"
    using stop_samples by blast
  then have "samples (snd (stop m r)) \<noteq> []" by simp
  then obtain a p where "getResults (snd (stop m r)) = Summary a p (samples (snd (stop m r)))"
    using getResults_Summary by blast
  then show ?thesis by (simp add: stop_results printResults_Summary)
qed



subsection \<open>The CPU percentage of a sample\<close>

text \<open>
  \<^verbatim>\<open>sample()\<close> never moves \<^verbatim>\<open>startTime\<close>, appends one sample, and divides the CPU time
  used since the previous reading by the time elapsed since \<^verbatim>\<open>start()\<close>.
\<close>

lemma sample_keeps_startTime: "startTime (sample m r) = startTime m"
  by (simp add: sample_def Let_def)

lemma sample_appends: "\<exists>s. samples (sample m r) = samples m @ [s]"
  by (simp add: sample_def Let_def)

lemma sample_cpu:
  "cpu (last (samples (sample m r))) =
     js_div (js_mul (js_div
        (js_add (Fin (of_int (user (cpu_now r) - user (cpuUsage m))))
                (Fin (of_int (system (cpu_now r) - system (cpuUsage m)))))
        (js_mul (js_sub (time_now r) (startTime m)) (Fin 1000))) (Fin 100)) (Fin (real (ncpus r)))"
  by (simp add: sample_def Let_def cpuUsage_since_def)

text \<open>
  Claim C5 says the CPU percentage of every sample is the CPU time used since the
  previous sample over the time elapsed since the previous sample, over the number of
  cores. On four cores that are fully busy (4 s of CPU time per second), the first
  sample, taken 1000 ms after \<^verbatim>\<open>start()\<close>, records 100 percent; the second, taken
  1000 ms later after another 4 s of CPU time, records 50 percent, where the
  claim's formula gives 100: the CPU time of the last second is divided by the 2000 ms
  since \<^verbatim>\<open>start()\<close>.
\<close>

theorem second_sample_divides_by_time_since_start:
  "map cpu (samples (sample (sample (start (new_ResourceMonitor (idle_reads 0)) (idle_reads 0))
       (busy_reads 3000000 1000000 1000 4)) (busy_reads 6000000 2000000 2000 4)))
     = [Fin 100, Fin 50]
   \<and> spec_cpu_percent (cpu_after (busy_reads 3000000 1000000 1000 4))
        (time_now (busy_reads 3000000 1000000 1000 4))
        (cpu_now (busy_reads 6000000 2000000 2000 4))
        (time_now (busy_reads 6000000 2000000 2000 4)) 4 = Fin 100"
  by (simp add: sample_def start_def new_ResourceMonitor_def idle_reads_def busy_reads_def
      cpuUsage_since_def spec_cpu_percent_def js_sub_def js_round_numeral js_round_0 js_round_1 Let_def)

subsection \<open>Peak and average\<close>

text \<open>
  The three samples of \<open>tenth_monitor\<close>: each divides the CPU time since the previous
  sample by the time since \<^verbatim>\<open>start()\<close>, which is \<^verbatim>\<open>0.001\<close> every time, and records
  \<^verbatim>\<open>0.001 * 100 / 1\<close>, which is \<^verbatim>\<open>0.1\<close>.
\<close>

lemma thousandth_1: "js_div (Fin 1000) (Fin 1000000) = Fin thousandth"
  using js_round_eval [of "1 / 1000" 62] by (simp add: thousandth_def rne_def)

lemma thousandth_2: "js_div (Fin 2000) (Fin 2000000) = Fin thousandth"
  using js_round_eval [of "1 / 1000" 62] by (simp add: thousandth_def rne_def)

lemma thousandth_3: "js_div (Fin 3000) (Fin 3000000) = Fin thousandth"
  using js_round_eval [of "1 / 1000" 62] by (simp add: thousandth_def rne_def)

lemma thousandth_percent: "js_mul (Fin thousandth) (Fin 100) = Fin tenth"
  using js_round_eval [of "thousandth * 100" 56] by (simp add: thousandth_def tenth_def rne_def)

lemma tenth_one_core: "js_div (Fin tenth) (Fin 1) = Fin tenth"
  using js_round_eval [of tenth 56] by (simp add: tenth_def rne_def)

lemma toMB_0: "toMB 0 = Fin 0"
  by (simp add: toMB_def js_round_numeral js_round_0)

lemma exact_steps:
  "js_sub (Fin 1000) (Fin 0) = Fin 1000" "js_sub (Fin 2000) (Fin 0) = Fin 2000"
  "js_sub (Fin 3000) (Fin 0) = Fin 3000"
  "js_mul (Fin 1000) (Fin 1000) = Fin 1000000" "js_mul (Fin 2000) (Fin 1000) = Fin 2000000"
  "js_mul (Fin 3000) (Fin 1000) = Fin 3000000"
  "js_add (Fin 1000) (Fin 0) = Fin 1000" "js_add (Fin 2000) (Fin 0) = Fin 2000"
  "js_add (Fin 3000) (Fin 0) = Fin 3000"
  by (simp_all add: js_sub_def js_round_numeral)

lemma tenth_monitor_samples:
  "samples tenth_monitor =
     [\<lparr>cpu = Fin tenth,
       memory = \<lparr>rss = Fin 0, heapTotal = Fin 0, heapUsed = Fin 0, external = Fin 0\<rparr>,
       timestamp = Fin 1000\<rparr>,
      \<lparr>cpu = Fin tenth,
       memory = \<lparr>rss = Fin 0, heapTotal = Fin 0, heapUsed = Fin 0, external = Fin 0\<rparr>,
       timestamp = Fin 2000\<rparr>,
      \<lparr>cpu = Fin tenth,
       memory = \<lparr>rss = Fin 0, heapTotal = Fin 0, heapUsed = Fin 0, external = Fin 0\<rparr>,
       timestamp = Fin 3000\<rparr>]"
  by (simp add: tenth_monitor_def monitored_def stop_def sample_def start_def new_ResourceMonitor_def
      idle_reads_def busy_reads_def cpuUsage_since_def Let_def toMB_0 exact_steps
      thousandth_1 thousandth_2 thousandth_3 thousandth_percent tenth_one_core
      del: js_add.simps js_mul.simps js_div.simps)

text \<open>
  The running sum of three samples of \<^verbatim>\<open>0.1\<close> in binary64: \<^verbatim>\<open>0 + 0.1\<close> and
  \<^verbatim>\<open>0.1 + 0.1\<close> are exact, \<^verbatim>\<open>0.2 + 0.1\<close> is a tie and rounds up to
  \<^verbatim>\<open>0.30000000000000004\<close>, and a third of that rounds to \<^verbatim>\<open>0.10000000000000002\<close>,
  one unit in the last place above \<^verbatim>\<open>0.1\<close>.
\<close>

lemma tenth_sum_1: "js_add (Fin 0) (Fin tenth) = Fin tenth"
  using js_round_eval [of tenth 56] by (simp add: tenth_def rne_def)

lemma tenth_sum_2: "js_add (Fin tenth) (Fin tenth) = Fin (3602879701896397 / 18014398509481984)"
  using js_round_eval [of "tenth + tenth" 55] by (simp add: tenth_def rne_def)

lemma tenth_sum_3:
  "js_add (Fin (3602879701896397 / 18014398509481984)) (Fin tenth)
     = Fin (1351079888211149 / 4503599627370496)"
  using js_round_eval [of "3602879701896397 / 18014398509481984 + tenth" 54]
  by (simp add: tenth_def rne_def)

lemma tenth_avg:
  "js_div (Fin (1351079888211149 / 4503599627370496)) (Fin 3)
     = Fin (7205759403792795 / 72057594037927936)"
  using js_round_eval [of "1351079888211149 / 4503599627370496 / 3" 56]
  by (simp add: rne_def)

lemma zero_sum: "js_add (Fin 0) (Fin 0) = Fin 0"
  by (simp add: js_round_0)

lemma zero_avg: "js_div (Fin 0) (Fin 3) = Fin 0"
  by (simp add: js_round_0)

text \<open>
  Claim C6 as stated (\<^verbatim>\<open>peak.cpu >= average.cpu\<close> for every non-empty sample sequence)
  fails for the results of the stopped monitor \<open>tenth_monitor\<close>, whose three samples
  all have the CPU percentage \<^verbatim>\<open>0.1\<close>: the peak is \<^verbatim>\<open>0.1\<close>, the average is
  \<^verbatim>\<open>0.10000000000000002\<close>.
\<close>

theorem average_exceeds_peak:
  "samples tenth_monitor \<noteq> []
   \<and> cpu (peak (getResults tenth_monitor)) = Fin (7205759403792794 / 72057594037927936)
   \<and> cpu (average (getResults tenth_monitor)) = Fin (7205759403792795 / 72057594037927936)
   \<and> \<not> js_ge (cpu (peak (getResults tenth_monitor))) (cpu (average (getResults tenth_monitor)))"
  by (simp add: tenth_monitor_samples getResults_def Let_def add_sample_def
      max_sample_def zero_metrics_def tenth_sum_1 tenth_sum_2 tenth_sum_3 tenth_avg
      zero_sum zero_avg js_ge_def del: js_add.simps js_div.simps)
    (simp add: tenth_def)

text \<open>
  The memory fields of the samples are the byte counts that \<^verbatim>\<open>sample()\<close> reads, divided
  by \<^verbatim>\<open>1024 * 1024\<close>, and every field of the summary is computed from that field of the
  samples alone.
\<close>

lemma toMB_eq: "b < 2 ^ 53 \<Longrightarrow> toMB b = Fin (real b / 2 ^ 20)"
proof -
  assume b: "b < 2 ^ 53"
  have m: "js_mul (Fin 1024) (Fin 1024) = Fin 1048576"
    by (simp add: js_round_numeral)
  show ?thesis using js_round_dyadic [OF b] by (simp add: toMB_def m del: js_mul.simps)
qed

lemma sample_memory:
  "map (\<lambda>s. field_of g (memory s)) (samples (sample m r))
     = map (\<lambda>s. field_of g (memory s)) (samples m) @ [toMB (field_of g (mem_now r))]"
  by (cases g) (simp_all add: sample_def Let_def)

lemma foldl_sample_memory:
  "map (\<lambda>s. field_of g (memory s)) (samples (foldl sample m rs))
     = map (\<lambda>s. field_of g (memory s)) (samples m)
       @ map (\<lambda>x. toMB (field_of g (mem_now x))) rs"
  by (induction rs arbitrary: m) (simp_all add: sample_memory)

lemma monitored_memory:
  "map (\<lambda>s. field_of g (memory s)) (samples (monitored m r0 ticks r))
     = map (\<lambda>x. toMB (field_of g (mem_now x))) (ticks @ [r])"
  by (simp add: monitored_def stop_def Let_def sample_memory foldl_sample_memory start_def)

lemma monitored_length: "length (samples (monitored m r0 ticks r)) = Suc (length ticks)"
  using arg_cong [OF monitored_memory [of Rss m r0 ticks r], of length] by simp

lemma metric_add_sample:
  "metric f (add_sample acc s) = js_add (metric f acc) (metric f s)"
proof (cases f)
  case Cpu
  then show ?thesis by (simp add: add_sample_def)
next
  case (Memory g)
  then show ?thesis by (cases g) (simp_all add: add_sample_def)
qed

lemma metric_max_sample:
  "metric f (max_sample acc s) = js_max (metric f acc) (metric f s)"
proof (cases f)
  case Cpu
  then show ?thesis by (simp add: max_sample_def)
next
  case (Memory g)
  then show ?thesis by (cases g) (simp_all add: max_sample_def)
qed

lemma metric_foldl_add:
  "metric f (foldl add_sample acc ss) = foldl js_add (metric f acc) (map (metric f) ss)"
  by (induction ss arbitrary: acc) (simp_all add: metric_add_sample)

lemma metric_foldl_max:
  "metric f (foldl max_sample acc ss) = foldl js_max (metric f acc) (map (metric f) ss)"
  by (induction ss arbitrary: acc) (simp_all add: metric_max_sample)

lemma metric_zero: "metric f zero_metrics = Fin 0"
proof (cases f)
  case Cpu
  then show ?thesis by (simp add: zero_metrics_def)
next
  case (Memory g)
  then show ?thesis by (cases g) (simp_all add: zero_metrics_def)
qed

lemma metric_div:
  "metric f \<lparr>cpu = js_div (cpu x) c,
             memory = \<lparr>rss = js_div (rss (memory x)) c,
                       heapTotal = js_div (heapTotal (memory x)) c,
                       heapUsed = js_div (heapUsed (memory x)) c,
                       external = js_div (external (memory x)) c\<rparr>\<rparr>
     = js_div (metric f x) c"
proof (cases f)
  case Cpu
  then show ?thesis by simp
next
  case (Memory g)
  then show ?thesis by (cases g) simp_all
qed

lemma metric_average:
  assumes "samples m \<noteq> []"
  shows "metric f (average (getResults m))
           = js_div (foldl js_add (Fin 0) (map (metric f) (samples m)))
               (Fin (real (length (samples m))))"
  using assms
  by (simp add: getResults_def Let_def metric_div metric_foldl_add metric_zero
      del: js_div.simps)

lemma metric_peak:
  assumes "samples m \<noteq> []"
  shows "metric f (peak (getResults m)) = foldl js_max (Fin 0) (map (metric f) (samples m))"
  using assms by (simp add: getResults_def Let_def metric_foldl_max metric_zero)

text \<open>
  Byte counts that sum to less than \<open>2^53\<close>: every sample, the running sum and the
  maximum are multiples of \<open>2^-20\<close> that binary64 represents exactly, and the quotient
  of the sum by the count does not round above the maximum.
\<close>

lemma foldl_add_dyadic:
  "a + sum_list bs < 2 ^ 53 \<Longrightarrow>
     foldl js_add (Fin (real a / 2 ^ 20)) (map (\<lambda>b. Fin (real b / 2 ^ 20)) bs)
       = Fin (real (a + sum_list bs) / 2 ^ 20)"
proof (induction bs arbitrary: a)
  case Nil
  then show ?case by simp
next
  case (Cons b bs)
  have "a + b < 2 ^ 53" using Cons.prems by simp
  then have rd: "js_round (real (a + b) / 2 ^ 20) = Fin (real (a + b) / 2 ^ 20)"
    by (rule js_round_dyadic)
  have eq: "real a / 2 ^ 20 + real b / 2 ^ 20 = real (a + b) / 2 ^ 20"
    by (simp add: add_divide_distrib)
  have step: "js_add (Fin (real a / 2 ^ 20)) (Fin (real b / 2 ^ 20))
                = Fin (real (a + b) / 2 ^ 20)"
    by (simp only: js_add.simps eq rd)
  have "a + b + sum_list bs < 2 ^ 53" using Cons.prems by simp
  then have "foldl js_add (Fin (real (a + b) / 2 ^ 20)) (map (\<lambda>b. Fin (real b / 2 ^ 20)) bs)
               = Fin (real (a + b + sum_list bs) / 2 ^ 20)"
    by (rule Cons.IH)
  then show ?case by (simp only: list.map foldl_Cons step sum_list.Cons add.assoc)
qed

lemma foldl_max_dyadic:
  "foldl js_max (Fin (real a / 2 ^ 20)) (map (\<lambda>b. Fin (real b / 2 ^ 20)) bs)
     = Fin (real (foldl max a bs) / 2 ^ 20)"
proof (induction bs arbitrary: a)
  case Nil
  then show ?case by simp
next
  case (Cons b bs)
  have eq: "max (real a / 2 ^ 20) (real b / 2 ^ 20) = real (max a b) / 2 ^ 20"
    by (simp add: max_def divide_le_cancel)
  have step: "js_max (Fin (real a / 2 ^ 20)) (Fin (real b / 2 ^ 20))
                = Fin (real (max a b) / 2 ^ 20)"
    by (simp only: js_max.simps eq)
  show ?case by (simp only: list.map foldl_Cons step Cons.IH)
qed

lemma foldl_max_ge: "a \<le> foldl max a bs \<and> (\<forall>b\<in>set bs. b \<le> foldl max (a::nat) bs)"
proof (induction bs arbitrary: a)
  case Nil
  then show ?case by simp
next
  case (Cons b bs)
  from Cons.IH [of "max a b"] show ?case by auto
qed

lemma foldl_max_le: "foldl max (a::nat) bs \<le> a + sum_list bs"
proof (induction bs arbitrary: a)
  case Nil
  then show ?case by simp
next
  case (Cons b bs)
  from Cons.IH [of "max a b"] show ?case by simp
qed

lemma sum_list_le_bound: "\<forall>b\<in>set bs. b \<le> p \<Longrightarrow> sum_list bs \<le> length bs * (p::nat)"
  by (induction bs) (simp_all add: add_mono)

lemma sum_list_le_max: "sum_list bs \<le> length bs * foldl max (a::nat) bs"
  using foldl_max_ge [of a bs] by (intro sum_list_le_bound) simp

lemma map_toMB:
  assumes "sum_list bs < 2 ^ 53"
  shows "map toMB bs = map (\<lambda>b. Fin (real b / 2 ^ 20)) bs"
proof (rule map_cong [OF refl])
  fix b assume "b \<in> set bs"
  then have "b \<le> sum_list bs" by (intro member_le_sum_list) simp_all
  with assms have "b < 2 ^ 53" by simp
  then show "toMB b = Fin (real b / 2 ^ 20)" by (rule toMB_eq)
qed

lemma peak_ge_average_bytes:
  assumes "bs \<noteq> []" "sum_list bs < 2 ^ 53"
  shows "js_ge (foldl js_max (Fin 0) (map toMB bs))
           (js_div (foldl js_add (Fin 0) (map toMB bs)) (Fin (real (length bs))))"
proof -
  let ?S = "sum_list bs" and ?P = "foldl max 0 bs" and ?n = "length bs"
  let ?x = "real ?S / 2 ^ 20 / real ?n"
  have z: "Fin 0 = Fin (real 0 / 2 ^ 20)" by simp
  have pk: "foldl js_max (Fin 0) (map toMB bs) = Fin (real ?P / 2 ^ 20)"
    by (simp only: map_toMB [OF assms(2)] z foldl_max_dyadic)
  have sm: "foldl js_add (Fin 0) (map toMB bs) = Fin (real ?S / 2 ^ 20)"
    using foldl_add_dyadic [of 0 bs] assms(2) by (simp only: map_toMB [OF assms(2)] z) simp
  have n: "0 < real ?n" using assms(1) by simp
  have P: "?P < 2 ^ 53" using foldl_max_le [of 0 bs] assms(2) by simp
  have "real ?S \<le> real (?n * ?P)"
    using sum_list_le_max [of bs 0] by (simp only: of_nat_le_iff)
  then have "real ?S \<le> real ?P * real ?n" by (simp add: mult.commute)
  then have "real ?S / real ?n \<le> real ?P" using n by (simp add: pos_divide_le_eq)
  then have "real ?S / real ?n / 2 ^ 20 \<le> real ?P / 2 ^ 20"
    by (intro divide_right_mono) simp_all
  then have le: "?x \<le> real ?P / 2 ^ 20" by (simp add: field_simps)
  have "real ?P < real (2 ^ 53)" using P by (simp only: of_nat_less_iff)
  then have "real ?P / 2 ^ 20 < 2 ^ 53 / 2 ^ 20" by (intro divide_strict_right_mono) simp_all
  also have "\<dots> \<le> (2::real) ^ 53" by simp
  finally have "real ?P / 2 ^ 20 < 2 ^ 53" .
  with le have lt: "?x < 2 ^ 53" by linarith
  have nonneg: "0 \<le> ?x" by simp
  have r: "js_round ?x = Fin (fl ?x)" using nonneg lt by (rule js_round_finite)
  have "fl ?x \<le> real ?P / 2 ^ 20"
  proof (cases "?x = 0")
    case True
    then show ?thesis by (simp only: fl_zero) simp
  next
    case False
    with nonneg have "0 < ?x" by linarith
    then show ?thesis using le P by (rule fl_le_dyadic)
  qed
  moreover have "js_div (Fin (real ?S / 2 ^ 20)) (Fin (real ?n)) = Fin (fl ?x)"
    using n r by simp
  ultimately show ?thesis
    by (simp add: pk sm js_ge_def del: js_div.simps)
qed

text \<open>
  Finite samples: the running maximum is finite and bounds every sample, and so their
  exact mean.
\<close>

lemma finite_num_iff: "finite_num x \<longleftrightarrow> (\<exists>a. x = Fin a)"
  by (cases x) simp_all

lemma foldl_max_finite:
  assumes "finite_num acc" "list_all finite_num xs"
  shows "finite_num (foldl js_max acc xs)
         \<and> the_real acc \<le> the_real (foldl js_max acc xs)
         \<and> list_all (\<lambda>x. the_real x \<le> the_real (foldl js_max acc xs)) xs"
  using assms
proof (induction xs arbitrary: acc)
  case Nil
  then show ?case by simp
next
  case (Cons x xs)
  from Cons.prems obtain a b where ab: "acc = Fin a" "x = Fin b"
    by (auto simp: finite_num_iff)
  then have step: "js_max acc x = Fin (max a b)" by simp
  then have "finite_num (js_max acc x)" by simp
  moreover have "list_all finite_num xs" using Cons.prems(2) by simp
  ultimately have ih: "finite_num (foldl js_max (js_max acc x) xs)"
      "the_real (js_max acc x) \<le> the_real (foldl js_max (js_max acc x) xs)"
      "list_all (\<lambda>y. the_real y \<le> the_real (foldl js_max (js_max acc x) xs)) xs"
    using Cons.IH [of "js_max acc x"] by simp_all
  have "the_real acc \<le> the_real (js_max acc x)" "the_real x \<le> the_real (js_max acc x)"
    using ab by simp_all
  with ih show ?case by simp
qed

lemma sum_list_le_length_times:
  "list_all (\<lambda>x. g x \<le> (p::real)) xs \<Longrightarrow> sum_list (map g xs) \<le> real (length xs) * p"
  by (induction xs) (simp_all add: algebra_simps)

lemma peak_finite:
  assumes "samples m \<noteq> []" "list_all (\<lambda>s. finite_num (metric f s)) (samples m)"
  shows "finite_num (metric f (peak (getResults m)))
         \<and> 0 \<le> the_real (metric f (peak (getResults m)))
         \<and> list_all (\<lambda>s. the_real (metric f s) \<le> the_real (metric f (peak (getResults m))))
              (samples m)
         \<and> sum_list (map (\<lambda>s. the_real (metric f s)) (samples m)) / real (length (samples m))
              \<le> the_real (metric f (peak (getResults m)))"
proof -
  let ?p = "foldl js_max (Fin 0) (map (metric f) (samples m))"
  have pk: "metric f (peak (getResults m)) = ?p"
    using assms(1) by (rule metric_peak)
  have "list_all finite_num (map (metric f) (samples m))"
    using assms(2) by (simp add: list_all_iff)
  then have b: "finite_num ?p" "the_real (Fin 0) \<le> the_real ?p"
      "list_all (\<lambda>x. the_real x \<le> the_real ?p) (map (metric f) (samples m))"
    using foldl_max_finite [of "Fin 0" "map (metric f) (samples m)"] by simp_all
  from b(3) have c: "list_all (\<lambda>s. the_real (metric f s) \<le> the_real ?p) (samples m)"
    by (simp add: list_all_iff)
  have n: "0 < real (length (samples m))" using assms(1) by simp
  have "sum_list (map (\<lambda>s. the_real (metric f s)) (samples m))
          \<le> real (length (samples m)) * the_real ?p"
    using c by (rule sum_list_le_length_times)
  then have "sum_list (map (\<lambda>s. the_real (metric f s)) (samples m)) / real (length (samples m))
          \<le> the_real ?p"
    using n by (simp add: field_simps)
  with b c show ?thesis by (simp add: pk)
qed

lemma peak_ge_average_memory:
  assumes "sum_list (map (\<lambda>x. field_of g (mem_now x)) (ticks @ [r])) < 2 ^ 53"
  shows "js_ge (field_of g (memory (peak (getResults (monitored m r0 ticks r)))))
               (field_of g (memory (average (getResults (monitored m r0 ticks r)))))"
proof -
  let ?M = "monitored m r0 ticks r"
  let ?bs = "map (\<lambda>x. field_of g (mem_now x)) (ticks @ [r])"
  have ne: "samples ?M \<noteq> []"
    using monitored_length [of m r0 ticks r] by auto
  have "metric (Memory g) = (\<lambda>s::sample_entry. field_of g (memory s))"
    by (rule ext) simp
  then have mem: "map (metric (Memory g)) (samples ?M) = map toMB ?bs"
    using monitored_memory [of g m r0 ticks r] by (simp add: o_def)
  have len: "length (samples ?M) = length ?bs"
    by (simp add: monitored_length)
  have "?bs \<noteq> []" by simp
  then have "js_ge (foldl js_max (Fin 0) (map toMB ?bs))
               (js_div (foldl js_add (Fin 0) (map toMB ?bs)) (Fin (real (length ?bs))))"
    using assms by (rule peak_ge_average_bytes)
  then have "js_ge (metric (Memory g) (peak (getResults ?M)))
               (metric (Memory g) (average (getResults ?M)))"
    by (simp only: metric_peak [OF ne] metric_average [OF ne] mem len)
  then show ?thesis by simp
qed

text \<open>
  Claim C6, amended. For the summary \<^verbatim>\<open>getResults()\<close> of a monitor after \<^verbatim>\<open>start()\<close>,
  any number of samples of the timer and \<^verbatim>\<open>stop()\<close> (the summary that \<^verbatim>\<open>stop()\<close>
  returns, over at least one sample): for each of the four memory fields, whenever the
  byte counts read for that field sum to less than \<open>2^53\<close>, the peak is at least the
  average, \<^verbatim>\<open>peak.memory.field >= average.memory.field\<close>; for each of the five fields
  whose samples are finite, the peak is finite, at least 0, at least the field of every
  sample and at least the exact arithmetic mean of the field over the samples; and the
  average of each field is the binary64 running sum of the field over the samples,
  starting from 0, divided by their number.
\<close>

theorem peak_and_average:
  "(let M = monitored m r0 ticks r; R = getResults M
    in R = fst (stop (foldl sample (start m r0) ticks) r)
       \<and> length (samples M) = length ticks + 1
       \<and> (sum_list (map (\<lambda>x. field_of g (mem_now x)) (ticks @ [r])) < 2 ^ 53 \<longrightarrow>
            js_ge (field_of g (memory (peak R))) (field_of g (memory (average R))))
       \<and> (list_all (\<lambda>s. finite_num (metric f s)) (samples M) \<longrightarrow>
            finite_num (metric f (peak R))
            \<and> 0 \<le> the_real (metric f (peak R))
            \<and> list_all (\<lambda>s. the_real (metric f s) \<le> the_real (metric f (peak R))) (samples M)
            \<and> sum_list (map (\<lambda>s. the_real (metric f s)) (samples M)) / real (length (samples M))
                 \<le> the_real (metric f (peak R)))
       \<and> metric f (average R)
            = js_div (foldl js_add (Fin 0) (map (metric f) (samples M)))
                (Fin (real (length (samples M)))))"
proof -
  let ?M = "monitored m r0 ticks r"
  have ne: "samples ?M \<noteq> []"
    using monitored_length [of m r0 ticks r] by auto
  have "getResults ?M = fst (stop (foldl sample (start m r0) ticks) r)"
    by (simp add: monitored_def stop_def Let_def)
  moreover have "length (samples ?M) = length ticks + 1"
    by (simp add: monitored_length)
  moreover note peak_ge_average_memory [of g ticks r m r0] peak_finite [OF ne, of f]
    metric_average [OF ne, of f]
  ultimately show ?thesis unfolding Let_def by blast
qed

text \<open>
  A monitor on a process whose resident set holds 100 MB, 300 MB and 200 MB at its three
  samples: the peak of \<^verbatim>\<open>rss\<close> is at least the average. The three CPU samples of
  \<open>tenth_monitor\<close> are finite: their peak, \<^verbatim>\<open>0.1\<close>, is at least their exact mean.
\<close>

theorem peak_and_average_witness:
  "sum_list (map (\<lambda>x. field_of Rss (mem_now x))
       ([resident_reads 1000 104857600, resident_reads 2000 314572800]
          @ [resident_reads 3000 209715200])) < 2 ^ 53
   \<and> js_ge
        (rss (memory (peak (getResults
           (monitored (new_ResourceMonitor (idle_reads 0)) (idle_reads 0)
              [resident_reads 1000 104857600, resident_reads 2000 314572800]
              (resident_reads 3000 209715200))))))
        (rss (memory (average (getResults
           (monitored (new_ResourceMonitor (idle_reads 0)) (idle_reads 0)
              [resident_reads 1000 104857600, resident_reads 2000 314572800]
              (resident_reads 3000 209715200))))))
   \<and> list_all (\<lambda>s. finite_num (cpu s)) (samples tenth_monitor)
   \<and> sum_list (map (\<lambda>s. the_real (cpu s)) (samples tenth_monitor)) / 3
        \<le> the_real (cpu (peak (getResults tenth_monitor)))"
proof -
  let ?ticks = "[resident_reads 1000 104857600, resident_reads 2000 314572800]"
  let ?r = "resident_reads 3000 209715200"
  let ?M = "monitored (new_ResourceMonitor (idle_reads 0)) (idle_reads 0) ?ticks ?r"
  have a: "sum_list (map (\<lambda>x. field_of Rss (mem_now x)) (?ticks @ [?r])) < 2 ^ 53"
    by (simp add: resident_reads_def)
  have b: "list_all (\<lambda>s. finite_num (metric Cpu s)) (samples tenth_monitor)"
    by (simp add: tenth_monitor_samples)
  have c: "real (length (samples tenth_monitor)) = 3"
    by (simp add: tenth_monitor_samples)
  have "sum_list (map (\<lambda>x. field_of Rss (mem_now x)) (?ticks @ [?r])) < 2 ^ 53 \<longrightarrow>
          js_ge (field_of Rss (memory (peak (getResults ?M))))
            (field_of Rss (memory (average (getResults ?M))))"
    using peak_and_average
      [of "new_ResourceMonitor (idle_reads 0)" "idle_reads 0" ?ticks ?r Rss Cpu]
    unfolding Let_def by blast
  with a have d: "js_ge (rss (memory (peak (getResults ?M))))
                    (rss (memory (average (getResults ?M))))"
    by simp
  have "list_all (\<lambda>s. finite_num (metric Cpu s)) (samples tenth_monitor) \<longrightarrow>
          sum_list (map (\<lambda>s. the_real (metric Cpu s)) (samples tenth_monitor))
              / real (length (samples tenth_monitor))
            \<le> the_real (metric Cpu (peak (getResults tenth_monitor)))"
    using peak_and_average
      [of "new_ResourceMonitor (idle_reads 0)" "idle_reads 0"
        "[busy_reads 1000 0 1000 1, busy_reads 3000 0 2000 1]" "busy_reads 6000 0 3000 1"
        Rss Cpu, folded tenth_monitor_def]
    unfolding Let_def by blast
  with b have e: "sum_list (map (\<lambda>s. the_real (cpu s)) (samples tenth_monitor)) / 3
                    \<le> the_real (cpu (peak (getResults tenth_monitor)))"
    by (simp only: c metric.simps)
  from b have f: "list_all (\<lambda>s. finite_num (cpu s)) (samples tenth_monitor)" by simp
  from a d e f show ?thesis by blast
qed

section \<open>The test payload\<close>

text \<open>
  The copy loop returns only under a bound that is not Infinity; under a finite bound
  \<open>c\<close> it returns after \<open>\<lceil>c\<rceil>\<close> turns.
\<close>

lemma appendCopies_bound_not_PInf:
  assumes "appendCopies i n b s = Some y"
  shows "n \<noteq> PInf"
proof (rule appendCopies.raw_induct [where P = "\<lambda>i n b s y. n \<noteq> PInf", OF _ assms])
  fix f :: "nat \<Rightarrow> jsnum \<Rightarrow> buffer \<Rightarrow> buffer \<Rightarrow> buffer option" and i n b s y
  assume ih: "\<And>i n b s y. f i n b s = Some y \<Longrightarrow> n \<noteq> PInf"
    and step: "(if js_lt (Fin (real i)) n then f (i + 1) n (b @ s) s else Some b) = Some y"
  show "n \<noteq> PInf"
  proof (cases "js_lt (Fin (real i)) n")
    case True
    with step have "f (i + 1) n (b @ s) s = Some y" by simp
    then show ?thesis by (rule ih)
  next
    case False
    then show ?thesis by auto
  qed
qed

lemma appendCopies_PInf: "appendCopies i PInf b s = None"
proof (cases "appendCopies i PInf b s")
  case None
  then show ?thesis .
next
  case (Some y)
  then show ?thesis using appendCopies_bound_not_PInf by blast
qed

lemma appendCopies_Fin:
  "appendCopies i (Fin c) b s = Some (b @ concat (replicate (nat \<lceil>c\<rceil> - i) s))"
proof (induction "nat \<lceil>c\<rceil> - i" arbitrary: i b)
  case 0
  then have "\<not> real i < c" by linarith
  then show ?case using 0 by (subst appendCopies.simps) simp
next
  case (Suc k)
  then have lt: "real i < c" by linarith
  have "k = nat \<lceil>c\<rceil> - (i + 1)" using Suc.hyps(2) by simp
  then have "appendCopies (i + 1) (Fin c) (b @ s) s
               = Some ((b @ s) @ concat (replicate (nat \<lceil>c\<rceil> - (i + 1)) s))"
    by (rule Suc.hyps(1))
  moreover have "nat \<lceil>c\<rceil> - i = Suc (nat \<lceil>c\<rceil> - (i + 1))" using Suc.hyps(2) by simp
  ultimately show ?case using lt by (subst appendCopies.simps) simp
qed

lemma createTestImageBuffer_empty_seed:
  "0 < sizeMB \<Longrightarrow> createTestImageBuffer sizeMB (Contents []) = None"
  by (simp add: createTestImageBuffer_def appendCopies_PInf)

text \<open>
  Claim C4 says that \<^verbatim>\<open>createTestImageBuffer(sizeMB)\<close> terminates for every seed length
  and returns a buffer within a fixed tolerance of \<^verbatim>\<open>sizeMB * 1024 * 1024\<close> bytes. With
  an empty sample image (a file of 0 bytes) and the harness's target of 20 MB,
  \<^verbatim>\<open>Math.ceil(targetSizeBytes / 0)\<close> is Infinity and every turn of the loop appends
  nothing: the call never returns, and neither does \<^verbatim>\<open>runBenchmarks\<close>.
\<close>

theorem empty_seed_never_returns:
  "createTestImageBuffer TARGET_SIZE_MB (Contents []) = None
   \<and> runBenchmarks (Contents []) envs = None"
  by (simp add: runBenchmarks_def createTestImageBuffer_empty_seed TARGET_SIZE_MB_def)

text \<open>
  For every seed that is not empty and every target below \<open>2^53\<close> bytes, the call
  returns a buffer of exactly the target length and prints no size warning, whatever
  the number of copies the rounded quotient asks for: trimming and padding settle the
  length.
\<close>

lemma length_pad_trim: "length (padToSize n (trimToSize n b)) = n"
  by (simp add: padToSize_def trimToSize_def)

lemma requiredCopies_finite:
  assumes "sampleImage \<noteq> []" "targetSizeBytes < 2 ^ 53"
  shows "\<exists>c. js_ceil (js_div (Fin (real targetSizeBytes)) (Fin (real (length sampleImage))))
           = Fin c"
proof -
  let ?q = "real targetSizeBytes / real (length sampleImage)"
  have l: "1 \<le> real (length sampleImage)"
    using assms(1) by (cases sampleImage) simp_all
  with assms(1) have "?q \<le> real targetSizeBytes / 1"
    by (intro divide_left_mono) simp_all
  moreover have "real targetSizeBytes < real (2 ^ 53)"
    using assms(2) by (simp only: of_nat_less_iff)
  ultimately have "?q < 2 ^ 53" by simp
  moreover have "0 \<le> ?q" by simp
  ultimately have "js_round ?q = Fin (fl ?q)" by (intro js_round_finite)
  with assms(1) show ?thesis by simp
qed

lemma no_sizeWarning:
  assumes "length buffer = sizeMB * 1024 * 1024" "sizeMB < 2 ^ 53"
  shows "sizeWarning sizeMB buffer = []"
proof -
  have m: "js_mul (Fin 1024) (Fin 1024) = Fin 1048576"
    by (simp add: js_round_numeral)
  have "real (length buffer) / 1048576 = real sizeMB" using assms(1) by simp
  then have a: "js_div (Fin (real (length buffer))) (Fin 1048576) = Fin (real sizeMB)"
    using assms(2) by (simp add: js_round_nat)
  have d: "js_sub (Fin (real sizeMB)) (Fin (real sizeMB)) = Fin 0"
    by (simp add: js_sub_def js_round_0)
  have "0 \<le> fl (1 / 100)" by (intro fl_nonneg_bounds) simp_all
  then show ?thesis
    by (simp add: sizeWarning_def m a d js_gt_def Let_def del: js_mul.simps js_div.simps)
qed

lemma createTestImageBuffer_returns:
  assumes "sampleImage \<noteq> []" "sizeMB * 1024 * 1024 < 2 ^ 53"
  shows "\<exists>buffer. createTestImageBuffer sizeMB (Contents sampleImage)
                    = Some (Returned (buffer, []))
                  \<and> length buffer = sizeMB * 1024 * 1024"
proof -
  obtain c where c: "js_ceil (js_div (Fin (real (sizeMB * 1024 * 1024)))
                        (Fin (real (length sampleImage)))) = Fin c"
    using requiredCopies_finite [OF assms] by blast
  let ?copies = "concat (replicate (nat \<lceil>c\<rceil>) sampleImage)"
  let ?buffer = "padToSize (sizeMB * 1024 * 1024) (trimToSize (sizeMB * 1024 * 1024) ?copies)"
  have len: "length ?buffer = sizeMB * 1024 * 1024" by (rule length_pad_trim)
  have "sizeMB < 2 ^ 53" using assms(2) by simp
  with len have w: "sizeWarning sizeMB ?buffer = []" by (rule no_sizeWarning)
  have "createTestImageBuffer sizeMB (Contents sampleImage) = Some (Returned (?buffer, []))"
    using c w by (simp add: createTestImageBuffer_def appendCopies_Fin Let_def
        del: js_div.simps)
  with len show ?thesis by blast
qed

lemma createTestImageBuffer_example:
  "\<exists>buffer. createTestImageBuffer TARGET_SIZE_MB (Contents [1, 2, 3])
                = Some (Returned (buffer, []))
            \<and> length buffer = 20971520"
  using createTestImageBuffer_returns [of "[1, 2, 3]" TARGET_SIZE_MB]
  by (simp add: TARGET_SIZE_MB_def)

section \<open>One upload request\<close>

text \<open>
  The three ways a request ends. What the \<^verbatim>\<open>try\<close> block throws, the \<^verbatim>\<open>catch\<close>
  block returns as a failed outcome, so the promise of the request is always fulfilled.
\<close>

lemma sendImageResizeRequest_cases:
  "sendImageResizeRequest numImages imageBuffer env =
     (case post env (formData numImages imageBuffer) of
        Rejected message \<Rightarrow>
          Inr \<lparr>success = False, duration = js_sub (caught_at env) (posted_at env),
               timings = None, sizes = None, error = Some message\<rparr>
      | Resolved NullBody \<Rightarrow>
          Inr \<lparr>success = False, duration = js_sub (caught_at env) (posted_at env),
               timings = None, sizes = None, error = Some null_body_message\<rparr>
      | Resolved (Body t s) \<Rightarrow>
          Inr \<lparr>success = True, duration = js_sub (settled_at env) (posted_at env),
               timings = t, sizes = s, error = None\<rparr>)"
  by (simp add: sendImageResizeRequest_def tryPost_def Let_def
      split: post_result.splits response_data.splits)

lemma sendImageResizeRequest_returns:
  "\<exists>outcome. sendImageResizeRequest numImages imageBuffer env = Inr outcome"
  by (simp add: sendImageResizeRequest_cases split: post_result.splits response_data.splits)

text \<open>
  Claim C8. For every number of images, every payload and every environment (whatever
  \<^verbatim>\<open>axios.post\<close> settles to, whatever the clock shows), the promise of
  \<^verbatim>\<open>sendImageResizeRequest\<close> is fulfilled with an outcome: nothing is thrown past the
  function. When the post is rejected (a network error, or a response with an error
  status) with any message, the outcome has \<^verbatim>\<open>success = false\<close>, the duration measured
  from before the post to the \<^verbatim>\<open>catch\<close> block, and that message in \<^verbatim>\<open>error\<close>. When the
  post is answered with a body, the outcome has \<^verbatim>\<open>success = true\<close>, the duration measured
  from before the post to the response, and the \<^verbatim>\<open>timings\<close> and \<^verbatim>\<open>sizes\<close> of the body.
  When it is answered with the body \<^verbatim>\<open>null\<close>, the read of \<^verbatim>\<open>response.data.timings\<close>
  throws inside the \<^verbatim>\<open>try\<close> block, and the outcome is the failure with the message of
  that TypeError.
\<close>

theorem sendImageResizeRequest_outcome:
  "(\<exists>outcome. sendImageResizeRequest numImages imageBuffer env = Inr outcome)
   \<and> (\<forall>message. post env (formData numImages imageBuffer) = Rejected message \<longrightarrow>
         sendImageResizeRequest numImages imageBuffer env
           = Inr \<lparr>success = False, duration = js_sub (caught_at env) (posted_at env),
                  timings = None, sizes = None, error = Some message\<rparr>)
   \<and> (\<forall>t s. post env (formData numImages imageBuffer) = Resolved (Body t s) \<longrightarrow>
         sendImageResizeRequest numImages imageBuffer env
           = Inr \<lparr>success = True, duration = js_sub (settled_at env) (posted_at env),
                  timings = t, sizes = s, error = None\<rparr>)
   \<and> (post env (formData numImages imageBuffer) = Resolved NullBody \<longrightarrow>
         sendImageResizeRequest numImages imageBuffer env
           = Inr \<lparr>success = False, duration = js_sub (caught_at env) (posted_at env),
                  timings = None, sizes = None,
                  error = Some ''Cannot read properties of null (reading 'timings')''\<rparr>)"
  using sendImageResizeRequest_returns [of numImages imageBuffer env]
  by (simp add: sendImageResizeRequest_cases null_body_message_def)

text \<open>
  A request that is refused after 100 ms, a request that is answered after 90 ms with a
  processing time of 80 ms, and a request that is answered with \<^verbatim>\<open>null\<close>.
\<close>

theorem sendImageResizeRequest_outcome_witness:
  "sendImageResizeRequest 8 [1, 2, 3]
       \<lparr>posted_at = Fin 0, post = (\<lambda>form. Rejected ''socket hang up''), settled_at = Fin 90,
        caught_at = Fin 100\<rparr>
     = Inr \<lparr>success = False, duration = Fin 100, timings = None, sizes = None,
            error = Some ''socket hang up''\<rparr>
   \<and> sendImageResizeRequest 8 [1, 2, 3]
       \<lparr>posted_at = Fin 0,
        post = (\<lambda>form. Resolved (Body (Some \<lparr>totalProcessingTime = Some (Fin 80)\<rparr>) None)),
        settled_at = Fin 90, caught_at = Fin 100\<rparr>
     = Inr \<lparr>success = True, duration = Fin 90,
            timings = Some \<lparr>totalProcessingTime = Some (Fin 80)\<rparr>, sizes = None, error = None\<rparr>
   \<and> sendImageResizeRequest 8 [1, 2, 3]
       \<lparr>posted_at = Fin 0, post = (\<lambda>form. Resolved NullBody), settled_at = Fin 90,
        caught_at = Fin 100\<rparr>
     = Inr \<lparr>success = False, duration = Fin 100, timings = None, sizes = None,
            error = Some ''Cannot read properties of null (reading 'timings')''\<rparr>"
  using sendImageResizeRequest_outcome
      [of 8 "[1, 2, 3]"
        "\<lparr>posted_at = Fin 0, post = (\<lambda>form. Rejected ''socket hang up''), settled_at = Fin 90,
          caught_at = Fin 100\<rparr>"]
    sendImageResizeRequest_outcome
      [of 8 "[1, 2, 3]"
        "\<lparr>posted_at = Fin 0,
          post = (\<lambda>form. Resolved (Body (Some \<lparr>totalProcessingTime = Some (Fin 80)\<rparr>) None)),
          settled_at = Fin 90, caught_at = Fin 100\<rparr>"]
    sendImageResizeRequest_outcome
      [of 8 "[1, 2, 3]"
        "\<lparr>posted_at = Fin 0, post = (\<lambda>form. Resolved NullBody), settled_at = Fin 90,
          caught_at = Fin 100\<rparr>"]
  by (simp add: js_sub_def js_round_numeral)

section \<open>A batch of concurrent requests\<close>

text \<open>The loop dispatches requests \<open>0\<close> to \<open>adjustedNumRequests - 1\<close>, none when the bound is not positive.\<close>

lemma dispatch_eq:
  "dispatch i n k buf envs
     = map (\<lambda>j. (sendImageResizeRequest k buf (envs j), formData k buf)) [i..<nat n]"
proof (induction i n k buf envs rule: dispatch.induct)
  case (1 i n k buf envs)
  show ?case
  proof (cases "int i < n")
    case True
    then have "i < nat n" by linarith
    then have "[i..<nat n] = i # [i + 1..<nat n]" by (simp add: upt_conv_Cons)
    with True 1 show ?thesis by (subst dispatch.simps) simp
  next
    case False
    then have "nat n \<le> i" by linarith
    with False show ?thesis by (subst dispatch.simps) simp
  qed
qed

text \<open>
  Every dispatched request settles to an outcome, so \<^verbatim>\<open>Promise.all\<close> is fulfilled with
  the outcomes in order of dispatch.
\<close>

lemma promiseAll_Inr: "promiseAll (map Inr xs) = Inr xs"
  by (induction xs) simp_all

lemma requests_settle:
  "map (\<lambda>j. sendImageResizeRequest k buf (envs j)) js
     = map Inr (map (\<lambda>j. projr (sendImageResizeRequest k buf (envs j))) js)"
proof -
  have "sendImageResizeRequest k buf (envs j) = Inr (projr (sendImageResizeRequest k buf (envs j)))"
    for j
    using sendImageResizeRequest_returns [of k buf "envs j"] by auto
  then show ?thesis by (simp add: o_def)
qed

lemma promiseAll_dispatch:
  "promiseAll (map fst (dispatch 0 n k buf envs))
     = Inr (map (\<lambda>j. projr (sendImageResizeRequest k buf (envs j))) [0..<nat n])"
proof -
  have "map fst (dispatch 0 n k buf envs)
          = map (\<lambda>j. sendImageResizeRequest k buf (envs j)) [0..<nat n]"
    by (simp add: dispatch_eq o_def)
  then show ?thesis by (simp only: requests_settle promiseAll_Inr)
qed

text \<open>No report derived from the outcomes is a clamping notice.\<close>

lemma filter_clamp_compressionReport: "filter is_clamp_notice (compressionReport sz k) = []"
  by (auto simp: compressionReport_def Let_def filter_empty_conv split: option.splits)

lemma filter_clamp_reportAverages: "filter is_clamp_notice (reportAverages ss k) = []"
  by (simp add: reportAverages_def filter_clamp_compressionReport
      split: list.splits option.splits)

text \<open>The two ways a batch ends: the timer wins the race, or every request settles first.\<close>

lemma runConcurrentRequests_timeout:
  assumes "timeout_first env"
  shows "runConcurrentRequests n k buf env =
     \<lparr>results = [], resourceUsage = None, safetyTriggered = True,
      console = (if min n 50 < n then [SafetyLimitApplied n (min n 50)] else [])
        @ [RunningRequests (min n 50) k, SafetyMechanismTriggered timeout_message],
      posted = replicate (nat (min n 50)) (formData k buf)\<rparr>"
  using assms
  by (simp add: runConcurrentRequests_def Let_def SAFETY_LIMITS_def dispatch_eq o_def
      map_replicate_const)

lemma runConcurrentRequests_completed:
  assumes "\<not> timeout_first env"
  shows "\<exists>a p ss pre.
     runConcurrentRequests n k buf env =
       \<lparr>results =
          map (\<lambda>j. projr (sendImageResizeRequest k buf (req_envs env j))) [0..<nat (min n 50)],
        resourceUsage = Some (Summary a p ss), safetyTriggered = False,
        console = pre @ reportAverages
          (filter success
             (map (\<lambda>j. projr (sendImageResizeRequest k buf (req_envs env j)))
                [0..<nat (min n 50)])) k,
        posted = replicate (nat (min n 50)) (formData k buf)\<rparr>
     \<and> filter is_derived_report pre = []
     \<and> filter is_clamp_notice pre
         = (if min n 50 < n then [SafetyLimitApplied n (min n 50)] else [])"
proof -
  let ?m = "foldl sample (start (new_ResourceMonitor (mon_created env)) (mon_started env))
              (mon_ticks env)"
  let ?outcomes =
    "map (\<lambda>j. projr (sendImageResizeRequest k buf (req_envs env j))) [0..<nat (min n 50)]"
  obtain a p ss where u: "fst (stop ?m (mon_stopped env)) = Summary a p ss"
    and pr: "printResults (snd (stop ?m (mon_stopped env))) (ConcurrentRequests (min n 50))
               = ([ResourceUsage (ConcurrentRequests (min n 50)) a p], Inr (Summary a p ss))"
    using printResults_stop by blast
  have pa: "promiseAll (map fst (dispatch 0 (min n 50) k buf (req_envs env))) = Inr ?outcomes"
    by (rule promiseAll_dispatch)
  define pre where "pre =
    (if min n 50 < n then [SafetyLimitApplied n (min n 50)] else [])
      @ [RunningRequests (min n 50) k, ResourceUsage (ConcurrentRequests (min n 50)) a p]
      @ resultLines (min n 50) (js_sub (wait_end env) (wait_start env)) ?outcomes"
  have "runConcurrentRequests n k buf env =
       \<lparr>results = ?outcomes, resourceUsage = Some (Summary a p ss), safetyTriggered = False,
        console = pre @ reportAverages (filter success ?outcomes) k,
        posted = replicate (nat (min n 50)) (formData k buf)\<rparr>"
    using assms u pr
    by (simp add: runConcurrentRequests_def Let_def SAFETY_LIMITS_def pa split_beta pre_def)
      (simp add: dispatch_eq o_def map_replicate_const)
  moreover have "filter is_derived_report pre = []"
    by (simp add: pre_def resultLines_def Let_def)
  moreover have "filter is_clamp_notice pre
         = (if min n 50 < n then [SafetyLimitApplied n (min n 50)] else [])"
    by (simp add: pre_def resultLines_def Let_def)
  ultimately show ?thesis by blast
qed

text \<open>What a batch posts, returns and prints.\<close>

lemma posted_run:
  "posted (runConcurrentRequests n k buf env) = replicate (nat (min n 50)) (formData k buf)"
proof (cases "timeout_first env")
  case True
  then show ?thesis by (simp add: runConcurrentRequests_timeout)
next
  case False
  from runConcurrentRequests_completed [OF False, of n k buf] show ?thesis by auto
qed

lemma results_run:
  "results (runConcurrentRequests n k buf env)
     = (if timeout_first env then []
        else map (\<lambda>j. projr (sendImageResizeRequest k buf (req_envs env j)))
               [0..<nat (min n 50)])"
proof (cases "timeout_first env")
  case True
  then show ?thesis by (simp add: runConcurrentRequests_timeout)
next
  case False
  from runConcurrentRequests_completed [OF False, of n k buf] show ?thesis
    using False by auto
qed

lemma safetyTriggered_run:
  "safetyTriggered (runConcurrentRequests n k buf env) = timeout_first env"
proof (cases "timeout_first env")
  case True
  then show ?thesis by (simp add: runConcurrentRequests_timeout)
next
  case False
  from runConcurrentRequests_completed [OF False, of n k buf] show ?thesis
    using False by auto
qed

lemma console_completed:
  assumes "\<not> timeout_first env"
  shows "\<exists>pre. filter is_derived_report pre = []
           \<and> console (runConcurrentRequests n k buf env)
               = pre @ reportAverages
                         (filter success (results (runConcurrentRequests n k buf env))) k"
  using runConcurrentRequests_completed [OF assms, of n k buf] by auto

lemma clamp_notice_run:
  "filter is_clamp_notice (console (runConcurrentRequests n k buf env))
     = (if min n 50 < n then [SafetyLimitApplied n (min n 50)] else [])"
proof (cases "timeout_first env")
  case True
  then show ?thesis by (simp add: runConcurrentRequests_timeout)
next
  case False
  from runConcurrentRequests_completed [OF False, of n k buf] show ?thesis
    by (auto simp: filter_clamp_reportAverages)
qed

text \<open>
  Claim C2. For every requested count \<open>N\<close>, \<^verbatim>\<open>runConcurrentRequests\<close> posts exactly
  \<open>min N 50\<close> requests (50 is \<^verbatim>\<open>maxConcurrentRequests\<close>), whether or not the batch
  then times out, and its console output holds the clamping notice, once, exactly when
  \<open>N\<close> exceeds 50, and no such notice otherwise.
\<close>

theorem clamped_dispatch_and_notice:
  "length (posted (runConcurrentRequests (int N) k buf env)) = min N 50
   \<and> filter is_clamp_notice (console (runConcurrentRequests (int N) k buf env))
       = (if 50 < N then [SafetyLimitApplied (int N) 50] else [])"
  by (simp add: posted_run clamp_notice_run min_def)

text \<open>Sixty requested requests are clamped to fifty with a notice; ten are not.\<close>

theorem clamped_dispatch_and_notice_witness:
  "length (posted (runConcurrentRequests (int 60) 8 [] (example_env False mixed_posts))) = 50
   \<and> filter is_clamp_notice
        (console (runConcurrentRequests (int 60) 8 [] (example_env False mixed_posts)))
       = [SafetyLimitApplied 60 50]
   \<and> length (posted (runConcurrentRequests (int 10) 8 [] (example_env False mixed_posts))) = 10
   \<and> filter is_clamp_notice
        (console (runConcurrentRequests (int 10) 8 [] (example_env False mixed_posts))) = []"
  using clamped_dispatch_and_notice [of 60 8 "[]" "example_env False mixed_posts"]
    clamped_dispatch_and_notice [of 10 8 "[]" "example_env False mixed_posts"]
  by simp

text \<open>
  Claim C3. If every request of the batch settles before the timer fires, the returned
  results are the outcomes that the \<open>min N 50\<close> dispatched requests settle to, in order
  of dispatch, and the batch is not marked failed; if the timer fires first, the
  returned results are empty and the batch is marked failed (\<^verbatim>\<open>safetyTriggered\<close>).
\<close>

theorem outcomes_or_timeout:
  "(\<not> timeout_first env \<longrightarrow>
      length (results (runConcurrentRequests (int N) k buf env)) = min N 50
      \<and> map Inr (results (runConcurrentRequests (int N) k buf env))
          = map (\<lambda>j. sendImageResizeRequest k buf (req_envs env j)) [0..<min N 50]
      \<and> \<not> safetyTriggered (runConcurrentRequests (int N) k buf env))
   \<and> (timeout_first env \<longrightarrow>
      results (runConcurrentRequests (int N) k buf env) = []
      \<and> safetyTriggered (runConcurrentRequests (int N) k buf env))"
  using requests_settle [of k buf "req_envs env" "[0..<min N 50]"]
  by (simp add: results_run safetyTriggered_run min_def)

text \<open>A batch of sixty requested requests that completes, and one that times out.\<close>

theorem outcomes_or_timeout_witness:
  "length (results (runConcurrentRequests (int 60) 8 [] (example_env False mixed_posts))) = 50
   \<and> \<not> safetyTriggered (runConcurrentRequests (int 60) 8 [] (example_env False mixed_posts))
   \<and> results (runConcurrentRequests (int 60) 8 [] (example_env True mixed_posts)) = []
   \<and> safetyTriggered (runConcurrentRequests (int 60) 8 [] (example_env True mixed_posts))"
  using outcomes_or_timeout [of "example_env False mixed_posts" 60 8 "[]"]
    outcomes_or_timeout [of "example_env True mixed_posts" 60 8 "[]"]
  by (simp add: example_env_def)

subsection \<open>The reported averages\<close>

text \<open>
  The running sum of \<^verbatim>\<open>avgProcessingTime\<close> adds the reported times that are truthy
  and skips every other outcome; the divisor is the number of all successful outcomes.
\<close>

lemma addProcessingTime_eq:
  "addProcessingTime acc r = foldl js_add acc (filter js_truthy (reportedTime r))"
  by (simp add: addProcessingTime_def reportedTime_def split: option.splits)

lemma foldl_addProcessingTime:
  "foldl addProcessingTime acc ss
     = foldl js_add acc (filter js_truthy (concat (map reportedTime ss)))"
  by (induction ss arbitrary: acc) (simp_all add: addProcessingTime_eq)

lemma avgProcessingTime_eq:
  "avgProcessingTime ss
     = js_div (foldl js_add (Fin 0) (filter js_truthy (concat (map reportedTime ss))))
         (Fin (real (length ss)))"
  by (simp add: avgProcessingTime_def foldl_addProcessingTime)

lemma reportsTime_single:
  "reportsTime r \<Longrightarrow> \<exists>v. reportedTime r = [v] \<and> js_truthy v"
  by (auto simp: reportsTime_def reportedTime_def split: option.splits)

lemma all_report:
  "list_all reportsTime ss \<Longrightarrow>
     filter js_truthy (concat (map reportedTime ss)) = concat (map reportedTime ss)
     \<and> length (concat (map reportedTime ss)) = length ss"
proof (induction ss)
  case Nil
  then show ?case by simp
next
  case (Cons r ss)
  then obtain v where "reportedTime r = [v]" "js_truthy v"
    using reportsTime_single by auto
  with Cons show ?case by simp
qed

lemma filter_processing_compressionReport:
  "filter is_processing_average (compressionReport sz k) = []"
  by (auto simp: compressionReport_def Let_def filter_empty_conv split: option.splits)

lemma filter_processing_reportAverages:
  "ss \<noteq> [] \<Longrightarrow>
     filter is_processing_average (reportAverages ss k)
       = [AverageProcessingTime (avgProcessingTime ss)]"
  by (cases ss)
     (simp_all add: reportAverages_def filter_processing_compressionReport split: option.splits)

lemma derived_imp_not_processing:
  "filter is_derived_report pre = [] \<Longrightarrow> filter is_processing_average pre = []"
proof -
  have "is_processing_average e \<Longrightarrow> is_derived_report e" for e by (cases e) simp_all
  then show "filter is_derived_report pre = [] \<Longrightarrow> filter is_processing_average pre = []"
    by (auto simp: filter_empty_conv)
qed

lemma console_processing_average:
  assumes "\<not> timeout_first env"
    and "filter success (results (runConcurrentRequests n k buf env)) \<noteq> []"
  shows "filter is_processing_average (console (runConcurrentRequests n k buf env))
           = [AverageProcessingTime
                (avgProcessingTime (filter success (results (runConcurrentRequests n k buf env))))]"
proof -
  obtain pre where "filter is_derived_report pre = []"
    and "console (runConcurrentRequests n k buf env)
           = pre @ reportAverages (filter success (results (runConcurrentRequests n k buf env))) k"
    using console_completed [OF assms(1)] by blast
  then show ?thesis
    using assms(2) by (simp add: derived_imp_not_processing filter_processing_reportAverages)
qed

lemma console_no_success:
  assumes "\<not> timeout_first env"
    and "filter success (results (runConcurrentRequests n k buf env)) = []"
  shows "filter is_derived_report (console (runConcurrentRequests n k buf env)) = []"
proof -
  obtain pre where "filter is_derived_report pre = []"
    and "console (runConcurrentRequests n k buf env)
           = pre @ reportAverages (filter success (results (runConcurrentRequests n k buf env))) k"
    using console_completed [OF assms(1)] by blast
  then show ?thesis
    using assms(2) by (simp add: reportAverages_def)
qed

lemma avgProcessingTime_success:
  "avgProcessingTime (filter success rs)
     = js_div (foldl js_add (Fin 0) (filter js_truthy (reportedTimes rs)))
         (Fin (real (length (filter success rs))))"
  by (simp add: avgProcessingTime_eq reportedTimes_def)

lemma avgProcessingTime_all_report:
  assumes "list_all reportsTime (filter success rs)"
  shows "avgProcessingTime (filter success rs) = spec_mean_processing_time rs"
  using all_report [OF assms]
  by (simp add: avgProcessingTime_success spec_mean_processing_time_def reportedTimes_def)

text \<open>
  Claim C9, amended. For every batch that completes: when at least one outcome is
  successful, the console reports one average processing time, which is the sum of the
  \<^verbatim>\<open>totalProcessingTime\<close> values reported by successful outcomes (those that are not 0
  or NaN) divided by the number of all successful outcomes; when every successful
  outcome reports such a time, this is the mean over the outcomes that report one; and
  when no outcome is successful, no derived report (average duration, average
  processing time, compression) is printed and the batch is not marked failed.
\<close>

theorem processing_time_average:
  assumes "\<not> timeout_first env"
  shows "(filter success (results (runConcurrentRequests n k buf env)) \<noteq> [] \<longrightarrow>
            filter is_processing_average (console (runConcurrentRequests n k buf env))
              = [AverageProcessingTime
                   (js_div
                      (foldl js_add (Fin 0)
                         (filter js_truthy
                            (reportedTimes (results (runConcurrentRequests n k buf env)))))
                      (Fin (real (length
                         (filter success (results (runConcurrentRequests n k buf env)))))))])
       \<and> (list_all reportsTime (filter success (results (runConcurrentRequests n k buf env))) \<longrightarrow>
            js_div
              (foldl js_add (Fin 0)
                 (filter js_truthy (reportedTimes (results (runConcurrentRequests n k buf env)))))
              (Fin (real (length (filter success (results (runConcurrentRequests n k buf env))))))
            = spec_mean_processing_time (results (runConcurrentRequests n k buf env)))
       \<and> (filter success (results (runConcurrentRequests n k buf env)) = [] \<longrightarrow>
            filter is_derived_report (console (runConcurrentRequests n k buf env)) = []
            \<and> \<not> safetyTriggered (runConcurrentRequests n k buf env))"
  using assms console_processing_average [OF assms, of n k buf]
    console_no_success [OF assms, of n k buf]
    avgProcessingTime_all_report [of "results (runConcurrentRequests n k buf env)"]
  by (simp add: avgProcessingTime_success safetyTriggered_run)

lemma two_requests: "[0..<2] = [0, 1::nat]"
  by (simp add: upt_rec)

text \<open>
  Claim C9 as stated (the reported value is the mean over the successful outcomes that
  report a processing time) fails for a batch of two successful outcomes of which only
  the first reports a time, of 100 ms: the console reports 50, the mean over the
  outcomes that report one is 100.
\<close>

theorem processing_time_average_counterexample:
  "\<not> timeout_first (example_env False mixed_posts)
   \<and> filter is_processing_average
        (console (runConcurrentRequests 2 8 [] (example_env False mixed_posts)))
       = [AverageProcessingTime (Fin 50)]
   \<and> spec_mean_processing_time (results (runConcurrentRequests 2 8 [] (example_env False mixed_posts)))
       = Fin 100"
proof -
  have t: "\<not> timeout_first (example_env False mixed_posts)"
    by (simp add: example_env_def)
  have r: "results (runConcurrentRequests 2 8 [] (example_env False mixed_posts))
     = [\<lparr>success = True, duration = Fin 100,
         timings = Some \<lparr>totalProcessingTime = Some (Fin 100)\<rparr>, sizes = None, error = None\<rparr>,
        \<lparr>success = True, duration = Fin 100, timings = None, sizes = None, error = None\<rparr>]"
    by (simp add: results_run two_requests sendImageResizeRequest_cases example_env_def
        mixed_posts_def js_sub_def js_round_numeral Let_def)
  have s: "spec_mean_processing_time (results (runConcurrentRequests 2 8 [] (example_env False mixed_posts)))
             = Fin 100"
    by (simp add: r spec_mean_processing_time_def reportedTimes_def reportedTime_def js_round_numeral)
  have c: "filter is_processing_average
        (console (runConcurrentRequests 2 8 [] (example_env False mixed_posts)))
       = [AverageProcessingTime (Fin 50)]"
    using console_processing_average [OF t, of 2 8 "[]"]
    by (simp add: r avgProcessingTime_def addProcessingTime_def js_truthy_def js_round_numeral)
  from t s c show ?thesis by simp
qed

text \<open>
  Two successful outcomes that both report 100 ms, and a batch whose two requests are
  both refused.
\<close>

theorem processing_time_average_witness:
  "\<not> timeout_first (example_env False timed_posts)
   \<and> filter is_processing_average
        (console (runConcurrentRequests 2 8 [] (example_env False timed_posts)))
       = [AverageProcessingTime (Fin 100)]
   \<and> spec_mean_processing_time
        (results (runConcurrentRequests 2 8 [] (example_env False timed_posts))) = Fin 100
   \<and> filter is_derived_report
        (console (runConcurrentRequests 2 8 [] (example_env False refused_posts))) = []
   \<and> \<not> safetyTriggered (runConcurrentRequests 2 8 [] (example_env False refused_posts))"
proof -
  have t: "\<not> timeout_first (example_env False timed_posts)"
    and u: "\<not> timeout_first (example_env False refused_posts)"
    by (simp_all add: example_env_def)
  have r: "results (runConcurrentRequests 2 8 [] (example_env False timed_posts))
     = [\<lparr>success = True, duration = Fin 100,
         timings = Some \<lparr>totalProcessingTime = Some (Fin 100)\<rparr>, sizes = None, error = None\<rparr>,
        \<lparr>success = True, duration = Fin 100,
         timings = Some \<lparr>totalProcessingTime = Some (Fin 100)\<rparr>, sizes = None, error = None\<rparr>]"
    by (simp add: results_run two_requests sendImageResizeRequest_cases example_env_def
        timed_posts_def js_sub_def js_round_numeral Let_def)
  have q: "filter success (results (runConcurrentRequests 2 8 [] (example_env False refused_posts)))
             = []"
    by (simp add: results_run two_requests sendImageResizeRequest_cases example_env_def
        refused_posts_def Let_def)
  have s: "js_add (Fin 100) (Fin 100) = Fin 200" "js_add (Fin 0) (Fin 100) = Fin 100"
    "js_div (Fin 200) (Fin 2) = Fin 100"
    by (simp_all add: js_round_numeral)
  show ?thesis
    using t processing_time_average [OF t, of 2 8 "[]"] processing_time_average [OF u, of 2 8 "[]"]
    by (simp add: r q reportedTimes_def reportedTime_def reportsTime_def js_truthy_def s
        del: js_add.simps js_div.simps)
qed

section \<open>The scenario runner\<close>

text \<open>
  Once \<^verbatim>\<open>previousScenarioFailed\<close> is set, the rest of the loop only prints the skip
  messages.
\<close>

lemma scenarioLoop_failed:
  "scenarioLoop True buf scens = map (\<lambda>(sc, env). skipScenario sc) scens"
  by (induction scens) auto

lemma scenarioLoop_not_failed:
  "scenarioLoop False buf ((sc, env) # rest) =
     (case kind (runScenario sc buf env) of
        Ran failed \<Rightarrow> runScenario sc buf env # scenarioLoop failed buf rest
      | other \<Rightarrow> [runScenario sc buf env])"
  by (simp add: Let_def)

lemma scenarioLoop_length: "length (scenarioLoop f buf scens) \<le> length scens"
  by (induction scens arbitrary: f) (auto simp: Let_def split: turn_kind.splits)

lemma kind_skipScenario: "kind (skipScenario sc) = Skipped"
  by (simp add: skipScenario_def)

lemma skip_propagation:
  assumes "i < j" "j < length scens" "i < length (scenarioLoop f buf scens)"
    and "kind (scenarioLoop f buf scens ! i) = Ran True"
  shows "j < length (scenarioLoop f buf scens)
         \<and> scenarioLoop f buf scens ! j = skipScenario (fst (scens ! j))"
  using assms
proof (induction scens arbitrary: f i j)
  case Nil
  then show ?case by simp
next
  case (Cons a rest)
  obtain sc env where a: "a = (sc, env)" by (cases a)
  show ?case
  proof (cases f)
    case True
    with Cons.prems a show ?thesis
      by (simp add: scenarioLoop_failed kind_skipScenario case_prod_beta)
  next
    case False
    let ?t = "runScenario sc buf env"
    show ?thesis
    proof (cases "kind ?t")
      case Skipped
      with Cons.prems a False show ?thesis by (simp add: Let_def)
    next
      case (Threw msg)
      with Cons.prems a False show ?thesis by (simp add: Let_def)
    next
      case (Ran failed)
      then have loop: "scenarioLoop f buf (a # rest) = ?t # scenarioLoop failed buf rest"
        using a False by (simp add: Let_def)
      obtain j' where j: "j = Suc j'" using Cons.prems(1) by (cases j) auto
      show ?thesis
      proof (cases i)
        case 0
        with Cons.prems(4) loop Ran have "failed" by simp
        then have "scenarioLoop failed buf rest = map (\<lambda>(sc, env). skipScenario sc) rest"
          by (simp add: scenarioLoop_failed)
        with Cons.prems(2) j loop show ?thesis
          by (simp add: case_prod_beta)
      next
        case (Suc i')
        with Cons.prems j loop
        have "j' < length (scenarioLoop failed buf rest)
              \<and> scenarioLoop failed buf rest ! j' = skipScenario (fst (rest ! j'))"
          by (intro Cons.IH [of i' j' failed]) simp_all
        with j loop show ?thesis by simp
      qed
    qed
  qed
qed

lemma runs_after_success:
  assumes "Suc i < length (scenarioLoop f buf scens)"
    and "kind (scenarioLoop f buf scens ! Suc i) \<noteq> Skipped"
  shows "kind (scenarioLoop f buf scens ! i) = Ran False"
  using assms
proof (induction scens arbitrary: f i)
  case Nil
  then show ?case by simp
next
  case (Cons a rest)
  obtain sc env where a: "a = (sc, env)" by (cases a)
  show ?case
  proof (cases f)
    case True
    with Cons.prems a show ?thesis
      by (simp add: scenarioLoop_failed kind_skipScenario case_prod_beta)
  next
    case False
    let ?t = "runScenario sc buf env"
    show ?thesis
    proof (cases "kind ?t")
      case Skipped
      with Cons.prems a False show ?thesis by (simp add: Let_def)
    next
      case (Threw msg)
      with Cons.prems a False show ?thesis by (simp add: Let_def)
    next
      case (Ran failed)
      then have loop: "scenarioLoop f buf (a # rest) = ?t # scenarioLoop failed buf rest"
        using a False by (simp add: Let_def)
      show ?thesis
      proof (cases i)
        case 0
        have "\<not> failed"
        proof
          assume "failed"
          then have "scenarioLoop failed buf rest = map (\<lambda>(sc, env). skipScenario sc) rest"
            by (simp add: scenarioLoop_failed)
          with Cons.prems 0 loop show False
            by (simp add: kind_skipScenario case_prod_beta)
        qed
        with 0 loop Ran show ?thesis by simp
      next
        case (Suc i')
        with Cons.prems loop show ?thesis
          using Cons.IH [of i' failed] by simp
      qed
    qed
  qed
qed

lemma kind_failed_loop:
  assumes "i < length scens"
  shows "kind (scenarioLoop True buf scens ! i) = Skipped"
proof -
  have "scenarioLoop True buf scens ! i = (\<lambda>(sc, env). skipScenario sc) (scens ! i)"
    using assms by (simp only: scenarioLoop_failed nth_map)
  then show ?thesis by (simp add: case_prod_beta kind_skipScenario)
qed

lemma executed_turn:
  assumes "i < length (scenarioLoop f buf scens)"
    and "kind (scenarioLoop f buf scens ! i) \<noteq> Skipped"
  shows "scenarioLoop f buf scens ! i = runScenario (fst (scens ! i)) buf (snd (scens ! i))"
  using assms
proof (induction scens arbitrary: f i)
  case Nil
  then show ?case by simp
next
  case (Cons a rest)
  obtain sc env where a: "a = (sc, env)" by (cases a)
  show ?case
  proof (cases f)
    case True
    have "length (scenarioLoop True buf (a # rest)) = length (a # rest)"
      by (simp only: scenarioLoop_failed length_map)
    with Cons.prems(1) True have "kind (scenarioLoop f buf (a # rest) ! i) = Skipped"
      by (simp only: kind_failed_loop)
    with Cons.prems(2) show ?thesis by simp
  next
    case False
    let ?t = "runScenario sc buf env"
    show ?thesis
    proof (cases "kind ?t")
      case Skipped
      with Cons.prems a False show ?thesis by (simp add: Let_def)
    next
      case (Threw msg)
      with Cons.prems a False show ?thesis by (simp add: Let_def)
    next
      case (Ran failed)
      then have loop: "scenarioLoop f buf (a # rest) = ?t # scenarioLoop failed buf rest"
        using a False by (simp add: Let_def)
      show ?thesis
      proof (cases i)
        case 0
        with loop a show ?thesis by simp
      next
        case (Suc i')
        with Cons.prems loop show ?thesis
          using Cons.IH [of i' failed] by simp
      qed
    qed
  qed
qed

lemma scenarioLoop_first:
  "scenarioLoop False buf ((sc, env) # rest) \<noteq> []
   \<and> scenarioLoop False buf ((sc, env) # rest) ! 0 = runScenario sc buf env"
  by (simp add: Let_def split: turn_kind.splits)

text \<open>After a run that did not fail, the next scenario of the list runs.\<close>

lemma next_runs:
  assumes "i < length (scenarioLoop f buf scens)"
    and "kind (scenarioLoop f buf scens ! i) = Ran False"
    and "Suc i < length scens"
  shows "Suc i < length (scenarioLoop f buf scens)
         \<and> scenarioLoop f buf scens ! Suc i
             = runScenario (fst (scens ! Suc i)) buf (snd (scens ! Suc i))"
  using assms
proof (induction scens arbitrary: f i)
  case Nil
  then show ?case by simp
next
  case (Cons a rest)
  obtain sc env where a: "a = (sc, env)" by (cases a)
  show ?case
  proof (cases f)
    case True
    have "length (scenarioLoop True buf (a # rest)) = length (a # rest)"
      by (simp only: scenarioLoop_failed length_map)
    with Cons.prems(1) True have "kind (scenarioLoop f buf (a # rest) ! i) = Skipped"
      by (simp only: kind_failed_loop)
    with Cons.prems(2) show ?thesis by simp
  next
    case False
    let ?t = "runScenario sc buf env"
    show ?thesis
    proof (cases "kind ?t")
      case Skipped
      with Cons.prems a False show ?thesis by (simp add: Let_def)
    next
      case (Threw msg)
      with Cons.prems a False show ?thesis by (simp add: Let_def)
    next
      case (Ran failed)
      then have loop: "scenarioLoop f buf (a # rest) = ?t # scenarioLoop failed buf rest"
        using a False by (simp add: Let_def)
      show ?thesis
      proof (cases i)
        case 0
        with Cons.prems(2) loop Ran have nf: "\<not> failed" by simp
        from Cons.prems(3) 0 obtain b rest' where rest: "rest = b # rest'"
          by (cases rest) auto
        obtain sc' env' where b: "b = (sc', env')" by (cases b)
        have "scenarioLoop False buf ((sc', env') # rest') \<noteq> []"
          and "scenarioLoop False buf ((sc', env') # rest') ! 0 = runScenario sc' buf env'"
          using scenarioLoop_first [of buf sc' env' rest'] by simp_all
        with 0 loop nf rest b show ?thesis by simp
      next
        case (Suc i')
        with Cons.prems loop show ?thesis
          using Cons.IH [of i' failed] by simp
      qed
    qed
  qed
qed

text \<open>
  What a run leaves in \<^verbatim>\<open>previousScenarioFailed\<close>. The single request fails the
  scenario exactly when its outcome is not successful; a successful outcome without a
  processing time makes the report throw. A batch fails the scenario exactly when the
  timer wins the race, whatever the outcomes of its requests.
\<close>

lemma runSingleRequest_kind:
  "kind (runSingleRequest sc buf env) =
     (case sendImageResizeRequest (images sc) buf (req_envs env 0) of
        Inl message \<Rightarrow> Threw message
      | Inr singleResult \<Rightarrow>
          if success singleResult
          then (case timings singleResult of
                  None \<Rightarrow> Threw no_timings_message
                | Some t \<Rightarrow> (case totalProcessingTime t of
                              None \<Rightarrow> Threw no_processing_time_message
                            | Some v \<Rightarrow> Ran False))
          else Ran True)"
proof -
  let ?m = "foldl sample (start (new_ResourceMonitor (mon_created env)) (mon_started env))
              (mon_ticks env)"
  obtain a p ss where "fst (stop ?m (mon_stopped env)) = Summary a p ss"
    and "printResults (snd (stop ?m (mon_stopped env))) (SingleRequest (images sc))
           = ([ResourceUsage (SingleRequest (images sc)) a p], Inr (Summary a p ss))"
    using printResults_stop by blast
  then show ?thesis
    by (simp add: runSingleRequest_def Let_def split_beta split: sum.splits option.splits)
qed

lemma runScenario_kind:
  "kind (runScenario sc buf env) =
     (if concurrency sc = 1 then kind (runSingleRequest sc buf env)
      else Ran (timeout_first env))"
  by (simp add: runScenario_def Let_def safetyTriggered_run split: turn_kind.splits)

lemma runScenario_not_Skipped: "kind (runScenario sc buf env) \<noteq> Skipped"
  by (simp add: runScenario_kind runSingleRequest_kind split: sum.splits option.splits)

lemma runScenario_fails:
  "kind (runScenario sc buf env) = Ran True \<longleftrightarrow>
     (if concurrency sc = 1
      then (\<exists>outcome. sendImageResizeRequest (images sc) buf (req_envs env 0) = Inr outcome
              \<and> \<not> success outcome)
      else timeout_first env)"
proof -
  obtain outcome
    where "sendImageResizeRequest (images sc) buf (req_envs env 0) = Inr outcome"
    using sendImageResizeRequest_returns by blast
  then show ?thesis
    by (simp add: runScenario_kind runSingleRequest_kind split: option.splits)
qed

lemma runScenario_succeeds:
  assumes "kind (runScenario sc buf env) = Ran False"
  shows "if concurrency sc = 1
         then (\<exists>outcome. sendImageResizeRequest (images sc) buf (req_envs env 0) = Inr outcome
                 \<and> success outcome)
         else \<not> timeout_first env"
proof -
  obtain outcome
    where "sendImageResizeRequest (images sc) buf (req_envs env 0) = Inr outcome"
    using sendImageResizeRequest_returns by blast
  with assms show ?thesis
    by (simp add: runScenario_kind runSingleRequest_kind split: if_splits)
qed

lemma scenarios_with_envs:
  "zip scenarios [e0, e1, e2] =
     [(\<lparr>name = ''Single request with 8 images'', concurrency = 1, images = 8\<rparr>, e0),
      (\<lparr>name = ''10 concurrent requests with 8 images each'', concurrency = 10, images = 8\<rparr>, e1),
      (\<lparr>name = ''50 concurrent requests with 8 images each'', concurrency = 50, images = 8\<rparr>, e2)]"
  by (simp add: scenarios_def)

text \<open>
  The kinds of the runs of the example environments: a refused single request fails the
  scenario, an answered one does not; a batch fails exactly when it times out.
\<close>

lemma example_single_kind:
  "kind (runScenario \<lparr>name = n, concurrency = 1, images = 8\<rparr> buf
           (example_env t refused_posts)) = Ran True"
  "kind (runScenario \<lparr>name = n, concurrency = 1, images = 8\<rparr> buf
           (example_env t timed_posts)) = Ran False"
  by (simp_all add: runScenario_kind runSingleRequest_kind sendImageResizeRequest_cases
      example_env_def refused_posts_def timed_posts_def)

lemma example_batch_kind:
  "c \<noteq> 1 \<Longrightarrow>
     kind (runScenario \<lparr>name = n, concurrency = c, images = 8\<rparr> buf (example_env t posts))
       = Ran t"
  by (simp add: runScenario_kind example_env_def)

text \<open>
  \<^verbatim>\<open>runBenchmarks\<close> runs this loop, with the flag clear, over its three scenarios: once
  the payload is built, it prints what the turns of the loop print, and then its closing
  lines.
\<close>

lemma runBenchmarks_turns:
  assumes "createTestImageBuffer TARGET_SIZE_MB file = Some (Returned (imageBuffer, warned))"
  shows "\<exists>closing. runBenchmarks file envs
           = Some (Returned (warned
               @ concat (map emitted (scenarioLoop False imageBuffer
                   (zip scenarios (map envs [0..<length scenarios]))))
               @ closing))"
  using assms by (simp add: runBenchmarks_def Let_def split: option.splits)

lemma scenario_envs: "map envs [0..<length scenarios] = [envs 0, envs 1, envs 2]"
  by (simp add: scenarios_def upt_rec numeral_2_eq_2)

text \<open>
  Claim C1 as stated (once a scenario fails by request error or timeout, no later
  scenario is executed) fails for a run in which the single request is answered and
  every one of the ten requests of the second scenario is refused: each of the ten
  outcomes is a failure that carries the error, the batch is not marked failed, and the
  third scenario is executed and posts its fifty requests.
\<close>

theorem batch_of_failed_requests_is_followed:
  "list_all (\<lambda>r. \<not> success r \<and> error r = Some ''connect ECONNREFUSED'')
      (results (runConcurrentRequests (concurrency (scenarios ! 1)) (images (scenarios ! 1)) []
         (example_env False refused_posts)))
   \<and> length (results (runConcurrentRequests (concurrency (scenarios ! 1))
         (images (scenarios ! 1)) [] (example_env False refused_posts))) = 10
   \<and> scenarioLoop False []
        (zip scenarios [example_env False timed_posts, example_env False refused_posts,
           example_env False timed_posts]) ! 1
       = runScenario (scenarios ! 1) [] (example_env False refused_posts)
   \<and> scenarioLoop False []
        (zip scenarios [example_env False timed_posts, example_env False refused_posts,
           example_env False timed_posts]) ! 2
       = runScenario (scenarios ! 2) [] (example_env False timed_posts)
   \<and> kind (runScenario (scenarios ! 2) [] (example_env False timed_posts)) = Ran False
   \<and> length (requests_posted (runScenario (scenarios ! 2) [] (example_env False timed_posts)))
       = 50"
proof -
  let ?s0 = "\<lparr>name = ''Single request with 8 images'', concurrency = 1, images = 8\<rparr>"
  let ?s1 = "\<lparr>name = ''10 concurrent requests with 8 images each'', concurrency = 10,
              images = 8\<rparr>"
  let ?s2 = "\<lparr>name = ''50 concurrent requests with 8 images each'', concurrency = 50,
              images = 8\<rparr>"
  have s: "scenarios ! 1 = ?s1" "scenarios ! 2 = ?s2"
    by (simp_all add: scenarios_def)
  have r: "results (runConcurrentRequests 10 8 [] (example_env False refused_posts))
             = replicate 10 \<lparr>success = False, duration = Fin 100, timings = None, sizes = None,
                 error = Some ''connect ECONNREFUSED''\<rparr>"
    by (simp add: results_run sendImageResizeRequest_cases example_env_def refused_posts_def
        js_sub_def js_round_numeral map_replicate_const)
  have l: "scenarioLoop False []
        (zip scenarios [example_env False timed_posts, example_env False refused_posts,
           example_env False timed_posts])
      = [runScenario ?s0 [] (example_env False timed_posts),
         runScenario ?s1 [] (example_env False refused_posts),
         runScenario ?s2 [] (example_env False timed_posts)]"
    by (simp add: scenarios_with_envs example_single_kind example_batch_kind Let_def)
  have k: "kind (runScenario ?s2 [] (example_env False timed_posts)) = Ran False"
    by (simp add: example_batch_kind)
  have p: "length (requests_posted (runScenario ?s2 [] (example_env False timed_posts))) = 50"
    by (simp add: runScenario_def Let_def posted_run)
  show ?thesis unfolding s by (simp add: l k p r list_all_iff)
qed

text \<open>
  Claim C1, amended. A scenario fails when it is the single-request scenario and the
  outcome of its request is not successful (a request error), or when it is a batch and
  the timer fires before its requests have settled (a timeout); request errors inside a
  batch do not fail it. For every list of scenarios and the turns of the loop over it
  (started, as in \<^verbatim>\<open>runBenchmarks\<close>, with the flag clear): once scenario \<open>i\<close> is
  executed and fails in one of these two ways, every later scenario \<open>j\<close> of the list has
  a turn, and that turn is the skip: it prints the message that names scenario \<open>j\<close> and
  posts no request. Scenario \<open>i + 1\<close> is executed only if scenario \<open>i\<close> was executed and
  did not fail: its single request was successful, or its batch did not time out. And
  after an executed batch that does not time out, the next scenario is executed,
  whatever the outcomes of the requests of the batch. \<^verbatim>\<open>runBenchmarks\<close> runs this loop
  over its three scenarios and the payload it has built, and prints what the turns print.
\<close>

theorem skip_after_failure:
  "(\<forall>imageBuffer warned.
      createTestImageBuffer TARGET_SIZE_MB file = Some (Returned (imageBuffer, warned)) \<longrightarrow>
      (\<exists>closing. runBenchmarks file envs
         = Some (Returned (warned
             @ concat (map emitted (scenarioLoop False imageBuffer
                 (zip scenarios (map envs [0..<length scenarios]))))
             @ closing))))
   \<and> (let L = scenarioLoop False buf scens
    in (\<forall>i j outcome.
          i < j \<and> j < length scens \<and> i < length L
          \<and> L ! i = runScenario (fst (scens ! i)) buf (snd (scens ! i))
          \<and> concurrency (fst (scens ! i)) = 1
          \<and> sendImageResizeRequest (images (fst (scens ! i))) buf (req_envs (snd (scens ! i)) 0)
              = Inr outcome
          \<and> \<not> success outcome
          \<longrightarrow> j < length L
              \<and> L ! j = \<lparr>kind = Skipped,
                          emitted = [SkippingScenario (name (fst (scens ! j)))],
                          requests_posted = []\<rparr>)
       \<and> (\<forall>i j.
          i < j \<and> j < length scens \<and> i < length L
          \<and> L ! i = runScenario (fst (scens ! i)) buf (snd (scens ! i))
          \<and> concurrency (fst (scens ! i)) \<noteq> 1
          \<and> timeout_first (snd (scens ! i))
          \<longrightarrow> j < length L
              \<and> L ! j = \<lparr>kind = Skipped,
                          emitted = [SkippingScenario (name (fst (scens ! j)))],
                          requests_posted = []\<rparr>)
       \<and> (\<forall>i. Suc i < length L
          \<and> L ! Suc i = runScenario (fst (scens ! Suc i)) buf (snd (scens ! Suc i))
          \<longrightarrow> L ! i = runScenario (fst (scens ! i)) buf (snd (scens ! i))
              \<and> (if concurrency (fst (scens ! i)) = 1
                 then (\<exists>outcome.
                         sendImageResizeRequest (images (fst (scens ! i))) buf
                           (req_envs (snd (scens ! i)) 0) = Inr outcome
                         \<and> success outcome)
                 else \<not> timeout_first (snd (scens ! i))))
       \<and> (\<forall>i. Suc i < length scens \<and> i < length L
          \<and> L ! i = runScenario (fst (scens ! i)) buf (snd (scens ! i))
          \<and> concurrency (fst (scens ! i)) \<noteq> 1
          \<and> \<not> timeout_first (snd (scens ! i))
          \<longrightarrow> Suc i < length L
              \<and> L ! Suc i = runScenario (fst (scens ! Suc i)) buf (snd (scens ! Suc i))))"
proof -
  let ?L = "scenarioLoop False buf scens"
  let ?run = "\<lambda>i. runScenario (fst (scens ! i)) buf (snd (scens ! i))"
  let ?skip = "\<lambda>j. \<lparr>kind = Skipped, emitted = [SkippingScenario (name (fst (scens ! j)))],
                     requests_posted = []\<rparr>"
  have skips: "j < length ?L \<and> ?L ! j = ?skip j"
    if "i < j" "j < length scens" "i < length ?L" "kind (?L ! i) = Ran True" for i j
    using skip_propagation [of i j scens False buf] that by (simp add: skipScenario_def)
  have a: "j < length ?L \<and> ?L ! j = ?skip j"
    if "i < j" "j < length scens" "i < length ?L" "?L ! i = ?run i"
      "concurrency (fst (scens ! i)) = 1"
      "sendImageResizeRequest (images (fst (scens ! i))) buf (req_envs (snd (scens ! i)) 0)
         = Inr outcome"
      "\<not> success outcome" for i j outcome
  proof -
    have "kind (?run i) = Ran True"
      using that(5-7) by (simp add: runScenario_fails)
    with that(4) have "kind (?L ! i) = Ran True" by simp
    with that(1-3) show ?thesis by (rule skips)
  qed
  have b: "j < length ?L \<and> ?L ! j = ?skip j"
    if "i < j" "j < length scens" "i < length ?L" "?L ! i = ?run i"
      "concurrency (fst (scens ! i)) \<noteq> 1" "timeout_first (snd (scens ! i))" for i j
  proof -
    have "kind (?run i) = Ran True"
      using that(5,6) by (simp add: runScenario_fails)
    with that(4) have "kind (?L ! i) = Ran True" by simp
    with that(1-3) show ?thesis by (rule skips)
  qed
  have c: "?L ! i = ?run i
           \<and> (if concurrency (fst (scens ! i)) = 1
              then (\<exists>outcome.
                      sendImageResizeRequest (images (fst (scens ! i))) buf
                        (req_envs (snd (scens ! i)) 0) = Inr outcome
                      \<and> success outcome)
              else \<not> timeout_first (snd (scens ! i)))"
    if "Suc i < length ?L" "?L ! Suc i = ?run (Suc i)" for i
  proof -
    have "kind (?L ! Suc i) \<noteq> Skipped"
      using that(2) by (simp add: runScenario_not_Skipped)
    with that(1) have k: "kind (?L ! i) = Ran False" by (rule runs_after_success)
    then have "kind (?L ! i) \<noteq> Skipped" by simp
    moreover have "i < length ?L" using that(1) by simp
    ultimately have e: "?L ! i = ?run i" by (intro executed_turn)
    with k have "kind (?run i) = Ran False" by simp
    then show ?thesis using e runScenario_succeeds by blast
  qed
  have d: "Suc i < length ?L \<and> ?L ! Suc i = ?run (Suc i)"
    if "Suc i < length scens" "i < length ?L" "?L ! i = ?run i"
      "concurrency (fst (scens ! i)) \<noteq> 1" "\<not> timeout_first (snd (scens ! i))" for i
  proof -
    have "kind (?run i) = Ran False"
      using that(4,5) by (simp add: runScenario_kind)
    with that(3) have "kind (?L ! i) = Ran False" by simp
    with that(2) show ?thesis using that(1) by (rule next_runs)
  qed
  show ?thesis
    unfolding Let_def
  proof (intro conjI; intro allI impI)
    fix imageBuffer warned
    assume "createTestImageBuffer TARGET_SIZE_MB file = Some (Returned (imageBuffer, warned))"
    then show "\<exists>closing. runBenchmarks file envs
         = Some (Returned (warned
             @ concat (map emitted (scenarioLoop False imageBuffer
                 (zip scenarios (map envs [0..<length scenarios]))))
             @ closing))"
      by (rule runBenchmarks_turns)
  next
    fix i j outcome
    assume "i < j \<and> j < length scens \<and> i < length ?L \<and> ?L ! i = ?run i
          \<and> concurrency (fst (scens ! i)) = 1
          \<and> sendImageResizeRequest (images (fst (scens ! i))) buf (req_envs (snd (scens ! i)) 0)
              = Inr outcome
          \<and> \<not> success outcome"
    then show "j < length ?L \<and> ?L ! j = ?skip j" using a [of i j outcome] by blast
  next
    fix i j
    assume "i < j \<and> j < length scens \<and> i < length ?L \<and> ?L ! i = ?run i
          \<and> concurrency (fst (scens ! i)) \<noteq> 1 \<and> timeout_first (snd (scens ! i))"
    then show "j < length ?L \<and> ?L ! j = ?skip j" using b [of i j] by blast
  next
    fix i
    assume "Suc i < length ?L \<and> ?L ! Suc i = ?run (Suc i)"
    then show "?L ! i = ?run i
           \<and> (if concurrency (fst (scens ! i)) = 1
              then (\<exists>outcome.
                      sendImageResizeRequest (images (fst (scens ! i))) buf
                        (req_envs (snd (scens ! i)) 0) = Inr outcome
                      \<and> success outcome)
              else \<not> timeout_first (snd (scens ! i)))"
      using c [of i] by blast
  next
    fix i
    assume "Suc i < length scens \<and> i < length ?L \<and> ?L ! i = ?run i
          \<and> concurrency (fst (scens ! i)) \<noteq> 1 \<and> \<not> timeout_first (snd (scens ! i))"
    then show "Suc i < length ?L \<and> ?L ! Suc i = ?run (Suc i)" using d [of i] by blast
  qed
qed

text \<open>
  The three scenarios of \<^verbatim>\<open>runBenchmarks\<close>. With every request refused, the single
  request of the first scenario fails and the two batches are skipped by name. With the
  ten requests of the second scenario still pending when the timer fires, the third
  scenario is skipped. With the ten requests of the second scenario refused in time,
  the third scenario is executed, after the second, which is executed after the single
  request was successful.
\<close>

theorem skip_after_failure_witness:
  "scenarioLoop False []
      (zip scenarios [example_env False refused_posts, example_env False refused_posts,
         example_env False refused_posts]) ! 0
     = runScenario (scenarios ! 0) [] (example_env False refused_posts)
   \<and> sendImageResizeRequest 8 [] (req_envs (example_env False refused_posts) 0)
     = Inr \<lparr>success = False, duration = Fin 100, timings = None, sizes = None,
            error = Some ''connect ECONNREFUSED''\<rparr>
   \<and> scenarioLoop False []
      (zip scenarios [example_env False refused_posts, example_env False refused_posts,
         example_env False refused_posts]) ! 1
     = \<lparr>kind = Skipped,
        emitted = [SkippingScenario ''10 concurrent requests with 8 images each''],
        requests_posted = []\<rparr>
   \<and> scenarioLoop False []
      (zip scenarios [example_env False refused_posts, example_env False refused_posts,
         example_env False refused_posts]) ! 2
     = \<lparr>kind = Skipped,
        emitted = [SkippingScenario ''50 concurrent requests with 8 images each''],
        requests_posted = []\<rparr>
   \<and> scenarioLoop False []
      (zip scenarios [example_env False timed_posts, example_env True timed_posts,
         example_env False timed_posts]) ! 1
     = runScenario (scenarios ! 1) [] (example_env True timed_posts)
   \<and> timeout_first (example_env True timed_posts)
   \<and> scenarioLoop False []
      (zip scenarios [example_env False timed_posts, example_env True timed_posts,
         example_env False timed_posts]) ! 2
     = \<lparr>kind = Skipped,
        emitted = [SkippingScenario ''50 concurrent requests with 8 images each''],
        requests_posted = []\<rparr>
   \<and> scenarioLoop False []
      (zip scenarios [example_env False timed_posts, example_env False refused_posts,
         example_env False timed_posts]) ! 1
     = runScenario (scenarios ! 1) [] (example_env False refused_posts)
   \<and> \<not> timeout_first (example_env False refused_posts)
   \<and> scenarioLoop False []
      (zip scenarios [example_env False timed_posts, example_env False refused_posts,
         example_env False timed_posts]) ! 2
     = runScenario (scenarios ! 2) [] (example_env False timed_posts)
   \<and> scenarioLoop False []
      (zip scenarios [example_env False timed_posts, example_env False refused_posts,
         example_env False timed_posts]) ! 0
     = runScenario (scenarios ! 0) [] (example_env False timed_posts)
   \<and> (\<exists>outcome. sendImageResizeRequest 8 [] (req_envs (example_env False timed_posts) 0)
         = Inr outcome \<and> success outcome)
   \<and> (\<exists>buffer closing.
         createTestImageBuffer TARGET_SIZE_MB (Contents [1, 2, 3]) = Some (Returned (buffer, []))
         \<and> runBenchmarks (Contents [1, 2, 3]) (\<lambda>i. example_env False refused_posts)
             = Some (Returned
                 (emitted (runScenario (scenarios ! 0) buffer (example_env False refused_posts))
                  @ [SkippingScenario ''10 concurrent requests with 8 images each'',
                     SkippingScenario ''50 concurrent requests with 8 images each'']
                  @ closing)))"
proof -
  let ?s0 = "\<lparr>name = ''Single request with 8 images'', concurrency = 1, images = 8\<rparr>"
  let ?s1 = "\<lparr>name = ''10 concurrent requests with 8 images each'', concurrency = 10,
              images = 8\<rparr>"
  let ?s2 = "\<lparr>name = ''50 concurrent requests with 8 images each'', concurrency = 50,
              images = 8\<rparr>"
  let ?refused = "example_env False refused_posts"
  let ?answered = "example_env False timed_posts"
  let ?late = "example_env True timed_posts"
  let ?A = "[(?s0, ?refused), (?s1, ?refused), (?s2, ?refused)]"
  let ?B = "[(?s0, ?answered), (?s1, ?late), (?s2, ?answered)]"
  let ?C = "[(?s0, ?answered), (?s1, ?refused), (?s2, ?answered)]"
  have s: "scenarios ! 0 = ?s0" "scenarios ! 1 = ?s1" "scenarios ! 2 = ?s2"
    by (simp_all add: scenarios_def)
  have la: "scenarioLoop False buf ?A
              = [runScenario ?s0 buf ?refused, skipScenario ?s1, skipScenario ?s2]" for buf
    by (simp add: example_single_kind Let_def)
  have lb: "scenarioLoop False [] ?B
              = [runScenario ?s0 [] ?answered, runScenario ?s1 [] ?late, skipScenario ?s2]"
    by (simp add: example_single_kind example_batch_kind Let_def)
  have lc: "scenarioLoop False [] ?C
              = [runScenario ?s0 [] ?answered, runScenario ?s1 [] ?refused,
                 runScenario ?s2 [] ?answered]"
    by (simp add: example_single_kind example_batch_kind Let_def)
  have ra: "sendImageResizeRequest 8 [] (req_envs ?refused 0)
              = Inr \<lparr>success = False, duration = Fin 100, timings = None, sizes = None,
                     error = Some ''connect ECONNREFUSED''\<rparr>"
    by (simp add: sendImageResizeRequest_cases example_env_def refused_posts_def js_sub_def
        js_round_numeral)
  have t: "timeout_first ?late" "\<not> timeout_first ?refused"
    by (simp_all add: example_env_def)
  note request_error = skip_after_failure [where buf = "[]" and scens = ?A,
    unfolded Let_def, THEN conjunct2, THEN conjunct1, rule_format]
  note timeout = skip_after_failure [where buf = "[]" and scens = ?B,
    unfolded Let_def, THEN conjunct2, THEN conjunct2, THEN conjunct1, rule_format]
  note only_if = skip_after_failure [where buf = "[]" and scens = ?C,
    unfolded Let_def, THEN conjunct2, THEN conjunct2, THEN conjunct2, THEN conjunct1,
    rule_format]
  note batch_errors = skip_after_failure [where buf = "[]" and scens = ?C,
    unfolded Let_def, THEN conjunct2, THEN conjunct2, THEN conjunct2, THEN conjunct2,
    rule_format]
  note printed = skip_after_failure [of "Contents [1, 2, 3]" "\<lambda>i. ?refused",
    unfolded Let_def, THEN conjunct1, rule_format]
  have a1: "scenarioLoop False [] ?A ! 1
              = \<lparr>kind = Skipped,
                 emitted = [SkippingScenario ''10 concurrent requests with 8 images each''],
                 requests_posted = []\<rparr>"
    using request_error
      [of 0 1 "\<lparr>success = False, duration = Fin 100, timings = None, sizes = None,
                 error = Some ''connect ECONNREFUSED''\<rparr>"] ra
    by (simp add: la del: scenarioLoop.simps)
  have a2: "scenarioLoop False [] ?A ! 2
              = \<lparr>kind = Skipped,
                 emitted = [SkippingScenario ''50 concurrent requests with 8 images each''],
                 requests_posted = []\<rparr>"
    using request_error
      [of 0 2 "\<lparr>success = False, duration = Fin 100, timings = None, sizes = None,
                 error = Some ''connect ECONNREFUSED''\<rparr>"] ra
    by (simp add: la del: scenarioLoop.simps)
  have b2: "scenarioLoop False [] ?B ! 2
              = \<lparr>kind = Skipped,
                 emitted = [SkippingScenario ''50 concurrent requests with 8 images each''],
                 requests_posted = []\<rparr>"
    using timeout [of 1 2] t by (simp add: lb del: scenarioLoop.simps)
  have c2: "scenarioLoop False [] ?C ! 2 = runScenario ?s2 [] ?answered"
    using batch_errors [of 1] t by (simp add: lc del: scenarioLoop.simps)
  have c0: "scenarioLoop False [] ?C ! 0 = runScenario ?s0 [] ?answered
            \<and> (\<exists>outcome. sendImageResizeRequest 8 [] (req_envs ?answered 0) = Inr outcome
                  \<and> success outcome)"
    using only_if [of 0] by (simp add: lc del: scenarioLoop.simps)
  have a0: "scenarioLoop False [] ?A ! 0 = runScenario ?s0 [] ?refused"
    and b1: "scenarioLoop False [] ?B ! 1 = runScenario ?s1 [] ?late"
    and c1: "scenarioLoop False [] ?C ! 1 = runScenario ?s1 [] ?refused"
    by (simp_all add: la lb lc del: scenarioLoop.simps)
  have d: "\<exists>buffer closing.
         createTestImageBuffer TARGET_SIZE_MB (Contents [1, 2, 3]) = Some (Returned (buffer, []))
         \<and> runBenchmarks (Contents [1, 2, 3]) (\<lambda>i. ?refused)
             = Some (Returned
                 (emitted (runScenario ?s0 buffer ?refused)
                  @ [SkippingScenario ''10 concurrent requests with 8 images each'',
                     SkippingScenario ''50 concurrent requests with 8 images each'']
                  @ closing))"
  proof -
    obtain buffer
      where b: "createTestImageBuffer TARGET_SIZE_MB (Contents [1, 2, 3])
                  = Some (Returned (buffer, []))"
      using createTestImageBuffer_example by blast
    from printed [OF b]
    obtain closing
      where "runBenchmarks (Contents [1, 2, 3]) (\<lambda>i. ?refused)
               = Some (Returned ([]
                   @ concat (map emitted (scenarioLoop False buffer
                       (zip scenarios (map (\<lambda>i. ?refused) [0..<length scenarios]))))
                   @ closing))"
      by blast
    then have "runBenchmarks (Contents [1, 2, 3]) (\<lambda>i. ?refused)
               = Some (Returned
                   (emitted (runScenario ?s0 buffer ?refused)
                    @ [SkippingScenario ''10 concurrent requests with 8 images each'',
                       SkippingScenario ''50 concurrent requests with 8 images each'']
                    @ closing))"
      by (simp add: scenario_envs scenarios_with_envs la skipScenario_def
          del: scenarioLoop.simps)
    with b show ?thesis by blast
  qed
  from a0 ra a1 a2 b1 t b2 c1 c2 c0 d show ?thesis
    unfolding scenarios_with_envs s by blast
qed

end
